theory Spec2Isabelle
  imports Main "HOL-Library.Sublist"
begin

section \<open>Values of the JavaScript runtime\<close>

text \<open>
  \<^verbatim>\<open>src/tools/storage.ts\<close> works on the result of \<^verbatim>\<open>JSON.parse\<close>, which TypeScript types
  as \<^verbatim>\<open>any\<close>: every property access, truthiness test and iteration is dynamic.  The
  values are therefore modelled as they are at run time.  \<open>JUndefined\<close> is never
  produced by the parser, only by reading a property that is not there.  Numbers are
  IEEE doubles; the program never computes with them, so their type is left opaque and
  the three places where the runtime inspects one are primitives of \<open>runtime\<close> below.
  An object is the list of its own properties; the first binding of a key is the
  property.
\<close>

typedecl js_number

datatype jsval =
    JUndefined
  | JNull
  | JBool bool
  | JNum js_number
  | JStr string
  | JArr "jsval list"
  | JObj "(string \<times> jsval) list"

text \<open>
  Everything that can be thrown.  \<open>FsError\<close> carries the code of a failed file-system
  call (\<^verbatim>\<open>ENOENT\<close>, \<^verbatim>\<open>EACCES\<close>, ...), \<open>BrowserError\<close> the message of a failed
  Playwright call, \<open>DOMException\<close> the name of an exception raised by the page's
  \<^verbatim>\<open>localStorage\<close>.  \<open>SyntaxError\<close> is what \<^verbatim>\<open>JSON.parse\<close> throws and \<open>TypeError\<close> what
  the language throws on \<^verbatim>\<open>null.x\<close> or on iterating a value that is not iterable.
\<close>

datatype error =
    FsError string
  | SyntaxError
  | TypeError
  | BrowserError string
  | DOMException string

text \<open>The \<^verbatim>\<open>localStorage\<close> object of one document: a key/value store of strings.\<close>

type_synonym storage = "string \<rightharpoonup> string"

text \<open>
  The built-ins of the language and of Node that the file calls but does not define.
  They are parameters of the model:
  \<^item> \<open>json_parse\<close>: \<^verbatim>\<open>JSON.parse\<close>, \<open>None\<close> when it throws;
  \<^item> \<open>json_stringify v n\<close>: \<^verbatim>\<open>JSON.stringify(v, null, n)\<close>;
  \<^item> \<open>path_dirname\<close>: \<^verbatim>\<open>path.dirname\<close>;
  \<^item> \<open>num_truthy\<close>: \<^verbatim>\<open>ToBoolean\<close> of a number (false for \<^verbatim>\<open>0\<close>, \<^verbatim>\<open>-0\<close>, \<^verbatim>\<open>NaN\<close>);
  \<^item> \<open>coerce_string\<close>: \<^verbatim>\<open>ToString\<close> of a value that is not a string;
  \<^item> \<open>gt_zero v\<close>: the comparison \<^verbatim>\<open>v > 0\<close> with its coercion of \<open>v\<close> to a number;
  \<^item> \<open>exceeds_quota k v m\<close>: whether \<^verbatim>\<open>setItem(k, v)\<close> on the store \<open>m\<close> is refused
    for lack of space.
\<close>

record runtime =
  json_parse :: "string \<Rightarrow> jsval option"
  json_stringify :: "jsval \<Rightarrow> nat \<Rightarrow> string"
  path_dirname :: "string \<Rightarrow> string"
  num_truthy :: "js_number \<Rightarrow> bool"
  coerce_string :: "jsval \<Rightarrow> error + string"
  gt_zero :: "jsval \<Rightarrow> error + bool"
  exceeds_quota :: "string \<Rightarrow> string \<Rightarrow> storage \<Rightarrow> bool"

text \<open>
  \<^verbatim>\<open>v.k\<close> for the property names the file reads (\<^verbatim>\<open>cookies\<close>, \<^verbatim>\<open>origins\<close>, \<^verbatim>\<open>origin\<close>,
  \<^verbatim>\<open>localStorage\<close>, \<^verbatim>\<open>name\<close>, \<^verbatim>\<open>value\<close>): none of them is an index, \<^verbatim>\<open>length\<close> or a
  property inherited from a prototype, so primitives and arrays answer \<^verbatim>\<open>undefined\<close>.
\<close>

fun get_prop :: "jsval \<Rightarrow> string \<Rightarrow> error + jsval" where
  "get_prop JUndefined k = Inl TypeError"
| "get_prop JNull k = Inl TypeError"
| "get_prop (JObj kvs) k = Inr (case map_of kvs k of None \<Rightarrow> JUndefined | Some v \<Rightarrow> v)"
| "get_prop v k = Inr JUndefined"

text \<open>\<^verbatim>\<open>ToBoolean\<close>, as \<^verbatim>\<open>if (v)\<close>, \<^verbatim>\<open>v && ...\<close> and \<^verbatim>\<open>v || ...\<close> apply it.\<close>

fun truthy :: "runtime \<Rightarrow> jsval \<Rightarrow> bool" where
  "truthy rt JUndefined = False"
| "truthy rt JNull = False"
| "truthy rt (JBool b) = b"
| "truthy rt (JNum n) = num_truthy rt n"
| "truthy rt (JStr s) = (s \<noteq> [])"
| "truthy rt (JArr xs) = True"
| "truthy rt (JObj kvs) = True"

text \<open>
  \<^verbatim>\<open>v.length > 0\<close>.  A string and an array have their length; a number or a boolean
  has no such property and \<^verbatim>\<open>undefined > 0\<close> is false; an object has it only as an own
  property, compared after coercion.
\<close>

fun length_gt_zero :: "runtime \<Rightarrow> jsval \<Rightarrow> error + bool" where
  "length_gt_zero rt JUndefined = Inl TypeError"
| "length_gt_zero rt JNull = Inl TypeError"
| "length_gt_zero rt (JBool b) = Inr False"
| "length_gt_zero rt (JNum n) = Inr False"
| "length_gt_zero rt (JStr s) = Inr (s \<noteq> [])"
| "length_gt_zero rt (JArr xs) = Inr (xs \<noteq> [])"
| "length_gt_zero rt (JObj kvs) =
     (case map_of kvs ''length'' of None \<Rightarrow> Inr False | Some l \<Rightarrow> gt_zero rt l)"

text \<open>The guard \<^verbatim>\<open>v && v.length > 0\<close> of lines 114 and 140.\<close>

definition nonempty :: "runtime \<Rightarrow> jsval \<Rightarrow> error + bool" where
  "nonempty rt v = (if truthy rt v then length_gt_zero rt v else Inr False)"

text \<open>
  The values a \<^verbatim>\<open>for (const x of v)\<close> loop visits.  An array gives its elements and a
  string one string per character; nothing else that the parser can produce is
  iterable.
\<close>

fun iterate :: "jsval \<Rightarrow> error + jsval list" where
  "iterate (JArr xs) = Inr xs"
| "iterate (JStr s) = Inr (map (\<lambda>c. JStr [c]) s)"
| "iterate v = Inl TypeError"

text \<open>\<^verbatim>\<open>ToString\<close>, and \<^verbatim>\<open>s.startsWith(v)\<close>, which coerces its argument with it.\<close>

definition to_string :: "runtime \<Rightarrow> jsval \<Rightarrow> error + string" where
  "to_string rt v = (case v of JStr s \<Rightarrow> Inr s | _ \<Rightarrow> coerce_string rt v)"

definition startsWith :: "runtime \<Rightarrow> string \<Rightarrow> jsval \<Rightarrow> error + bool" where
  "startsWith rt s v = (case to_string rt v of Inl e \<Rightarrow> Inl e | Inr p \<Rightarrow> Inr (prefix p s))"

section \<open>The function evaluated in the page\<close>

text \<open>
  Lines 142 to 146, the arrow function handed to \<^verbatim>\<open>page.evaluate\<close>:
  \<^verbatim>\<open>(items) => { for (const item of items) localStorage.setItem(item.name, item.value); }\<close>
  It runs against the \<^verbatim>\<open>localStorage\<close> of the document the tab shows.  \<^verbatim>\<open>setItem\<close>
  converts both arguments to strings and then stores, unless the quota is exceeded.
  An exception leaves what earlier iterations stored.
\<close>

definition setItem :: "runtime \<Rightarrow> string \<Rightarrow> string \<Rightarrow> storage \<Rightarrow> error + storage" where
  "setItem rt k v m =
     (if exceeds_quota rt k v m then Inl (DOMException ''QuotaExceededError'')
      else Inr (m(k \<mapsto> v)))"

fun set_each :: "runtime \<Rightarrow> jsval list \<Rightarrow> storage \<Rightarrow> error option \<times> storage" where
  "set_each rt [] m = (None, m)"
| "set_each rt (item # items) m =
     (case get_prop item ''name'' of Inl e \<Rightarrow> (Some e, m) | Inr n \<Rightarrow>
     (case get_prop item ''value'' of Inl e \<Rightarrow> (Some e, m) | Inr v \<Rightarrow>
     (case to_string rt n of Inl e \<Rightarrow> (Some e, m) | Inr k \<Rightarrow>
     (case to_string rt v of Inl e \<Rightarrow> (Some e, m) | Inr x \<Rightarrow>
     (case setItem rt k x m of Inl e \<Rightarrow> (Some e, m) | Inr m' \<Rightarrow> set_each rt items m')))))"

definition inject_items :: "runtime \<Rightarrow> jsval \<Rightarrow> storage \<Rightarrow> error option \<times> storage" where
  "inject_items rt items m =
     (case iterate items of Inl e \<Rightarrow> (Some e, m) | Inr xs \<Rightarrow> set_each rt xs m)"

section \<open>The collaborators\<close>

text \<open>
  What \<^verbatim>\<open>page.evaluate\<close> accepts as its first argument: a function, which Playwright
  serialises and calls in the page with the serialised second argument, or the source
  text of an expression.
\<close>

datatype script =
    PageFunction "jsval \<Rightarrow> storage \<Rightarrow> error option \<times> storage"
  | Expression string

text \<open>
  The Playwright tab and browser context, over a session state \<open>'s\<close> that the model
  does not look into.  A call that throws may still have changed the session, so each
  returns the error, if any, and the state it leaves.
  \<^item> \<open>pw_storageState\<close>: \<^verbatim>\<open>browserContext.storageState()\<close>.  Modelled from the spec:
    capture is read-only, with no side effect observable to the session (4.1).
  \<^item> \<open>pw_addCookies\<close>: \<^verbatim>\<open>browserContext.addCookies(cookies)\<close>;
  \<^item> \<open>pw_url\<close>: \<^verbatim>\<open>page.url()\<close>;
  \<^item> \<open>pw_goto\<close>: \<^verbatim>\<open>page.goto(url)\<close>, which returns when the navigation has settled,
    on whatever URL the site led to;
  \<^item> \<open>pw_evaluate_fault\<close>: why an evaluation cannot start (the page is closed, its
    storage is not accessible), if so;
  \<^item> \<open>pw_localStorage\<close>, \<open>pw_set_localStorage\<close>: the \<^verbatim>\<open>localStorage\<close> of the document
    the tab shows, read and replaced;
  \<^item> \<open>pw_evaluate_expression\<close>: \<^verbatim>\<open>page.evaluate\<close> of source text.
\<close>

record 's browser =
  pw_storageState :: "'s \<Rightarrow> error + jsval"
  pw_addCookies :: "jsval \<Rightarrow> 's \<Rightarrow> error option \<times> 's"
  pw_url :: "'s \<Rightarrow> string"
  pw_goto :: "jsval \<Rightarrow> 's \<Rightarrow> error option \<times> 's"
  pw_evaluate_fault :: "'s \<Rightarrow> error option"
  pw_localStorage :: "'s \<Rightarrow> storage"
  pw_set_localStorage :: "storage \<Rightarrow> 's \<Rightarrow> 's"
  pw_evaluate_expression :: "string \<Rightarrow> jsval \<Rightarrow> 's \<Rightarrow> error option \<times> 's"

text \<open>
  \<^verbatim>\<open>page.evaluate(script, arg)\<close>.  Modelled from the spec: \<^verbatim>\<open>evaluateInPage(script, args)\<close>
  runs the script in the page's context and suspends until it completes (6).  The
  argument is a value of the parser, which serialisation hands to the page as it is.
\<close>

fun pw_evaluate :: "'s browser \<Rightarrow> script \<Rightarrow> jsval \<Rightarrow> 's \<Rightarrow> error option \<times> 's" where
  "pw_evaluate B (PageFunction f) arg s =
     (case pw_evaluate_fault B s of
        Some e \<Rightarrow> (Some e, s)
      | None \<Rightarrow> (case f arg (pw_localStorage B s) of (r, m) \<Rightarrow> (r, pw_set_localStorage B m s)))"
| "pw_evaluate B (Expression src) arg s = pw_evaluate_expression B src arg s"

text \<open>
  Node's \<^verbatim>\<open>fs/promises\<close>, over a disk state \<open>'f\<close>: \<^verbatim>\<open>readFile(path, 'utf-8')\<close>,
  \<^verbatim>\<open>mkdir(dir, { recursive })\<close> and \<^verbatim>\<open>writeFile(path, data, encoding)\<close>.
\<close>

record 'f filesys =
  fs_readFile :: "string \<Rightarrow> 'f \<Rightarrow> error + string"
  fs_mkdir :: "string \<Rightarrow> bool \<Rightarrow> 'f \<Rightarrow> error option \<times> 'f"
  fs_writeFile :: "string \<Rightarrow> string \<Rightarrow> string \<Rightarrow> 'f \<Rightarrow> error option \<times> 'f"

section \<open>Calls and their log\<close>

text \<open>
  The awaited calls that can change something.  The model keeps a log of them: each
  entry is the call, the world it was issued in, and the entry of \<^verbatim>\<open>storageState.origins\<close>
  that the second loop was processing at that moment (\<open>None\<close> outside that loop).
\<close>

datatype call =
    AddCookies jsval
  | Goto jsval
  | Evaluate script jsval
  | Mkdir string bool
  | WriteFile string string string

record ('s, 'f) world =
  sess :: 's
  disk :: 'f

datatype ('s, 'f) event =
  Event (ev_call: call) (ev_world: "('s, 'f) world") (ev_entry: "jsval option")

type_synonym ('s, 'f) run = "('s, 'f) world \<times> ('s, 'f) event list"

fun exec :: "'s browser \<Rightarrow> 'f filesys \<Rightarrow> call \<Rightarrow> ('s, 'f) world \<Rightarrow> error option \<times> ('s, 'f) world" where
  "exec B F (AddCookies v) w = (case pw_addCookies B v (sess w) of (r, s) \<Rightarrow> (r, w\<lparr>sess := s\<rparr>))"
| "exec B F (Goto v) w = (case pw_goto B v (sess w) of (r, s) \<Rightarrow> (r, w\<lparr>sess := s\<rparr>))"
| "exec B F (Evaluate sc arg) w = (case pw_evaluate B sc arg (sess w) of (r, s) \<Rightarrow> (r, w\<lparr>sess := s\<rparr>))"
| "exec B F (Mkdir d rec) w = (case fs_mkdir F d rec (disk w) of (r, f) \<Rightarrow> (r, w\<lparr>disk := f\<rparr>))"
| "exec B F (WriteFile p d enc) w = (case fs_writeFile F p d enc (disk w) of (r, f) \<Rightarrow> (r, w\<lparr>disk := f\<rparr>))"

definition issue ::
  "'s browser \<Rightarrow> 'f filesys \<Rightarrow> jsval option \<Rightarrow> call \<Rightarrow> ('s, 'f) run \<Rightarrow> error option \<times> ('s, 'f) run" where
  "issue B F entry c r =
     (case r of (w, lg) \<Rightarrow>
        (case exec B F c w of (res, w') \<Rightarrow> (res, (w', lg @ [Event c w entry]))))"

section \<open>saveStorageState\<close>

text \<open>
  The \<^verbatim>\<open>code\<close> lines that the handler returns for display (lines 43 to 46) and the
  \<^verbatim>\<open>action\<close> closure (lines 48 to 69).  The handler obtains the tab with
  \<^verbatim>\<open>context.currentTabOrDie()\<close> before it builds the closure; the closures are modelled
  for a session that has a tab.
\<close>

definition saveStorageState_code :: "string \<Rightarrow> string list" where
  "saveStorageState_code path =
     [''// Save storage state to '' @ path,
      ''await context.storageState({ path: '' @ [CHR 0x27] @ path @ [CHR 0x27] @ '' });'']"

definition saveStorageState_action ::
  "'s browser \<Rightarrow> 'f filesys \<Rightarrow> runtime \<Rightarrow> string \<Rightarrow> ('s, 'f) run \<Rightarrow> (error + string) \<times> ('s, 'f) run" where
  "saveStorageState_action B F rt path r =
     (case pw_storageState B (sess (fst r)) of Inl e \<Rightarrow> (Inl e, r) | Inr storageState \<Rightarrow>
     (let dir = path_dirname rt path in
     (case issue B F None (Mkdir dir True) r of (Some e, r1) \<Rightarrow> (Inl e, r1) | (None, r1) \<Rightarrow>
     (case issue B F None (WriteFile path (json_stringify rt storageState 2) ''utf-8'') r1 of
        (Some e, r2) \<Rightarrow> (Inl e, r2)
      | (None, r2) \<Rightarrow> (Inr (''Storage state saved to '' @ path), r2)))))"

section \<open>loadStorageState\<close>

definition loadStorageState_code :: "string \<Rightarrow> string list" where
  "loadStorageState_code path =
     [''// Load storage state from '' @ path,
      ''// Note: In Playwright, storage state is typically loaded when creating a new context'']"

text \<open>
  Lines 120 to 126: the set of origins.  Nothing reads it afterwards, but building it
  iterates \<^verbatim>\<open>storageState.origins\<close> and reads \<^verbatim>\<open>origin.origin\<close> of every element, which
  throws on an element that is \<^verbatim>\<open>null\<close>, before the second loop starts.
\<close>

fun add_origins :: "jsval list \<Rightarrow> jsval list \<Rightarrow> error + jsval list" where
  "add_origins [] acc = Inr acc"
| "add_origins (origin # rest) acc =
     (case get_prop origin ''origin'' of Inl e \<Rightarrow> Inl e | Inr v \<Rightarrow> add_origins rest (acc @ [v]))"

definition collect_origins :: "runtime \<Rightarrow> jsval \<Rightarrow> error + jsval list" where
  "collect_origins rt storageState =
     (case get_prop storageState ''origins'' of Inl e \<Rightarrow> Inl e | Inr os \<Rightarrow>
     (if truthy rt os then
        (case iterate os of Inl e \<Rightarrow> Inl e | Inr xs \<Rightarrow> add_origins xs [])
      else Inr []))"

text \<open>
  Lines 133 to 136, \<^verbatim>\<open>// Navigate to the origin if not already there\<close>: the tab's URL
  is read, and the navigation is issued when the URL does not start with \<open>origin\<close>.
\<close>

definition navigate_to_origin ::
  "'s browser \<Rightarrow> 'f filesys \<Rightarrow> runtime \<Rightarrow> jsval \<Rightarrow> jsval \<Rightarrow> ('s, 'f) run \<Rightarrow> error option \<times> ('s, 'f) run" where
  "navigate_to_origin B F rt originData origin r =
     (let currentUrl = pw_url B (sess (fst r)) in
     (case startsWith rt currentUrl origin of Inl e \<Rightarrow> (Some e, r) | Inr there \<Rightarrow>
     (if \<not> there then issue B F (Some originData) (Goto origin) r else (None, r))))"

text \<open>
  Lines 139 to 149, \<^verbatim>\<open>// Inject localStorage\<close>: one evaluation of the page function on
  \<^verbatim>\<open>originData.localStorage\<close>, when it is there and not empty.
\<close>

definition inject_localStorage ::
  "'s browser \<Rightarrow> 'f filesys \<Rightarrow> runtime \<Rightarrow> jsval \<Rightarrow> ('s, 'f) run \<Rightarrow> error option \<times> ('s, 'f) run" where
  "inject_localStorage B F rt originData r =
     (case get_prop originData ''localStorage'' of Inl e \<Rightarrow> (Some e, r) | Inr items \<Rightarrow>
     (case nonempty rt items of Inl e \<Rightarrow> (Some e, r) | Inr some \<Rightarrow>
     (if some then
        issue B F (Some originData) (Evaluate (PageFunction (inject_items rt)) items) r
      else (None, r))))"

text \<open>The body of the second loop, lines 130 to 149, for one element \<open>originData\<close>.\<close>

definition restore_origin ::
  "'s browser \<Rightarrow> 'f filesys \<Rightarrow> runtime \<Rightarrow> jsval \<Rightarrow> ('s, 'f) run \<Rightarrow> error option \<times> ('s, 'f) run" where
  "restore_origin B F rt originData r =
     (case get_prop originData ''origin'' of Inl e \<Rightarrow> (Some e, r) | Inr origin \<Rightarrow>
     (case navigate_to_origin B F rt originData origin r of
        (Some e, r1) \<Rightarrow> (Some e, r1)
      | (None, r1) \<Rightarrow> inject_localStorage B F rt originData r1))"

text \<open>The second loop, line 129: the elements in order, stopping at the first throw.\<close>

fun restore_origins ::
  "'s browser \<Rightarrow> 'f filesys \<Rightarrow> runtime \<Rightarrow> jsval list \<Rightarrow> ('s, 'f) run \<Rightarrow> error option \<times> ('s, 'f) run" where
  "restore_origins B F rt [] r = (None, r)"
| "restore_origins B F rt (originData # rest) r =
     (case restore_origin B F rt originData r of
        (Some e, r1) \<Rightarrow> (Some e, r1)
      | (None, r1) \<Rightarrow> restore_origins B F rt rest r1)"

text \<open>Lines 113 to 115: the cookies, in one call, when there are any.\<close>

definition apply_cookies ::
  "'s browser \<Rightarrow> 'f filesys \<Rightarrow> runtime \<Rightarrow> jsval \<Rightarrow> ('s, 'f) run \<Rightarrow> error option \<times> ('s, 'f) run" where
  "apply_cookies B F rt storageState r =
     (case get_prop storageState ''cookies'' of Inl e \<Rightarrow> (Some e, r) | Inr cookies \<Rightarrow>
     (case nonempty rt cookies of Inl e \<Rightarrow> (Some e, r) | Inr some \<Rightarrow>
     (if some then issue B F None (AddCookies cookies) r else (None, r))))"

text \<open>What the second loop iterates, line 129: \<^verbatim>\<open>storageState.origins || []\<close>.\<close>

definition origins_or_empty :: "runtime \<Rightarrow> jsval \<Rightarrow> error + jsval list" where
  "origins_or_empty rt storageState =
     (case get_prop storageState ''origins'' of Inl e \<Rightarrow> Inl e | Inr os \<Rightarrow>
        iterate (if truthy rt os then os else JArr []))"

text \<open>
  What happens once the file is parsed, lines 110 to 159, on the parsed value; the
  result is the text of the reply.
\<close>

definition restore ::
  "'s browser \<Rightarrow> 'f filesys \<Rightarrow> runtime \<Rightarrow> string \<Rightarrow> jsval \<Rightarrow> ('s, 'f) run \<Rightarrow> (error + string) \<times> ('s, 'f) run" where
  "restore B F rt path storageState r =
     (case apply_cookies B F rt storageState r of (Some e, r1) \<Rightarrow> (Inl e, r1) | (None, r1) \<Rightarrow>
     (case collect_origins rt storageState of Inl e \<Rightarrow> (Inl e, r1) | Inr origins \<Rightarrow>
     (case origins_or_empty rt storageState of Inl e \<Rightarrow> (Inl e, r1) | Inr entries \<Rightarrow>
     (case restore_origins B F rt entries r1 of
        (Some e, r2) \<Rightarrow> (Inl e, r2)
      | (None, r2) \<Rightarrow> (Inr (''Storage state loaded from '' @ path), r2)))))"

text \<open>The \<^verbatim>\<open>action\<close> closure, lines 105 to 160.\<close>

definition loadStorageState_action ::
  "'s browser \<Rightarrow> 'f filesys \<Rightarrow> runtime \<Rightarrow> string \<Rightarrow> ('s, 'f) run \<Rightarrow> (error + string) \<times> ('s, 'f) run" where
  "loadStorageState_action B F rt path r =
     (case fs_readFile F path (disk (fst r)) of Inl e \<Rightarrow> (Inl e, r) | Inr storageStateJson \<Rightarrow>
     (case json_parse rt storageStateJson of None \<Rightarrow> (Inl SyntaxError, r) | Some storageState \<Rightarrow>
        restore B F rt path storageState r))"

section \<open>The snapshot format\<close>

text \<open>
  The on-disk format of section 6 of the specification, as the parser returns it: an
  item \<^verbatim>\<open>{ name, value }\<close>, an origin entry \<^verbatim>\<open>{ origin, localStorage }\<close> and the
  snapshot \<^verbatim>\<open>{ cookies, origins }\<close>.  Cookies are passed through as they are.
\<close>

definition item_json :: "string \<times> string \<Rightarrow> jsval" where
  "item_json kv = JObj [(''name'', JStr (fst kv)), (''value'', JStr (snd kv))]"

definition origin_json :: "string \<times> (string \<times> string) list \<Rightarrow> jsval" where
  "origin_json od =
     JObj [(''origin'', JStr (fst od)), (''localStorage'', JArr (map item_json (snd od)))]"

definition snapshot_json :: "jsval list \<Rightarrow> (string \<times> (string \<times> string) list) list \<Rightarrow> jsval" where
  "snapshot_json cookies origins =
     JObj [(''cookies'', JArr cookies), (''origins'', JArr (map origin_json origins))]"

section \<open>Reading a log\<close>

text \<open>
  \<open>outcome\<close> replays the calls of a log from a world: the error of the first call that
  fails, if any, and the world left at that point.  \<open>consistent\<close> says that a log is the
  record of one sequential execution: every call was issued in the world that the call
  before it left, and no call follows one that failed.
\<close>

fun outcome ::
  "'s browser \<Rightarrow> 'f filesys \<Rightarrow> ('s, 'f) world \<Rightarrow> ('s, 'f) event list \<Rightarrow> error option \<times> ('s, 'f) world" where
  "outcome B F w [] = (None, w)"
| "outcome B F w (ev # evs) =
     (case exec B F (ev_call ev) w of
        (None, w1) \<Rightarrow> outcome B F w1 evs
      | (Some e, w1) \<Rightarrow> (Some e, w1))"

fun consistent ::
  "'s browser \<Rightarrow> 'f filesys \<Rightarrow> ('s, 'f) world \<Rightarrow> ('s, 'f) event list \<Rightarrow> bool" where
  "consistent B F w [] = True"
| "consistent B F w (ev # evs) =
     (ev_world ev = w \<and>
      (case exec B F (ev_call ev) w of
         (None, w1) \<Rightarrow> consistent B F w1 evs
       | (Some e, w1) \<Rightarrow> evs = []))"

section \<open>A small browser, disk and runtime\<close>

text \<open>
  Concrete collaborators on which the theorems below are instantiated.  The tab has a
  URL, a cookie jar and one store per document URL.  \<open>settle u\<close> is the URL on which a
  navigation to \<open>u\<close> settles.  The disk maps paths to contents.  The runtime's parser
  knows the texts of a table and rejects every other text.
\<close>

record tab =
  tab_url :: string
  tab_jar :: "jsval list"
  tab_stores :: "string \<Rightarrow> storage"

definition stub_browser :: "(string \<Rightarrow> string) \<Rightarrow> tab browser" where
  "stub_browser settle =
     \<lparr> pw_storageState = (\<lambda>s. Inr (JObj [(''cookies'', JArr (tab_jar s)), (''origins'', JArr [])])),
       pw_addCookies = (\<lambda>v s. case v of
           JArr cs \<Rightarrow> (None, s\<lparr>tab_jar := tab_jar s @ cs\<rparr>)
         | _ \<Rightarrow> (Some (BrowserError ''cookies: expected array''), s)),
       pw_url = tab_url,
       pw_goto = (\<lambda>v s. case v of
           JStr u \<Rightarrow> (None, s\<lparr>tab_url := settle u\<rparr>)
         | _ \<Rightarrow> (Some (BrowserError ''url: expected string''), s)),
       pw_evaluate_fault = (\<lambda>s. None),
       pw_localStorage = (\<lambda>s. tab_stores s (tab_url s)),
       pw_set_localStorage = (\<lambda>m s. s\<lparr>tab_stores := (tab_stores s)(tab_url s := m)\<rparr>),
       pw_evaluate_expression = (\<lambda>src arg s. (Some (BrowserError ''not supported''), s)) \<rparr>"

definition stub_filesys :: "(string \<rightharpoonup> string) filesys" where
  "stub_filesys =
     \<lparr> fs_readFile = (\<lambda>p f. case f p of None \<Rightarrow> Inl (FsError ''ENOENT'') | Some c \<Rightarrow> Inr c),
       fs_mkdir = (\<lambda>d rec f. (None, f)),
       fs_writeFile = (\<lambda>p d enc f. (None, f(p \<mapsto> d))) \<rparr>"

definition stub_runtime :: "(string \<times> jsval) list \<Rightarrow> runtime" where
  "stub_runtime table =
     \<lparr> json_parse = map_of table,
       json_stringify = (\<lambda>v n. ''{}''),
       path_dirname = (\<lambda>p. rev (tl (dropWhile (\<lambda>c. c \<noteq> CHR ''/'') (rev p)))),
       num_truthy = (\<lambda>n. True),
       coerce_string = (\<lambda>v. case v of
           JUndefined \<Rightarrow> Inr ''undefined''
         | JNull \<Rightarrow> Inr ''null''
         | _ \<Rightarrow> Inl TypeError),
       gt_zero = (\<lambda>v. Inr False),
       exceeds_quota = (\<lambda>k v m. False) \<rparr>"

definition blank_tab :: tab where
  "blank_tab = \<lparr> tab_url = ''about:blank'', tab_jar = [], tab_stores = (\<lambda>u. Map.empty) \<rparr>"

definition blank_world :: "(string \<rightharpoonup> string) \<Rightarrow> (tab, string \<rightharpoonup> string) world" where
  "blank_world files = \<lparr> sess = blank_tab, disk = files \<rparr>"

text \<open>Where a navigation settles: on the URL with a slash, or on another host.\<close>

definition with_slash :: "string \<Rightarrow> string" where
  "with_slash u = u @ ''/''"

definition to_www :: "string \<Rightarrow> string" where
  "to_www u = ''https://www.example.com/''"

text \<open>
  The snapshot of the example of section 8 of the specification and the text of its
  file.  The disk holds it beside a file with an empty object, a file with an incomplete
  origin entry and a file that is not JSON.
\<close>

definition sample_cookie :: jsval where
  "sample_cookie = JObj [(''name'', JStr ''session''), (''value'', JStr ''abc''),
     (''domain'', JStr ''example.com''), (''path'', JStr ''/'')]"

definition sample_snapshot :: jsval where
  "sample_snapshot =
     snapshot_json [sample_cookie] [(''https://example.com'', [(''theme'', ''dark'')])]"

definition sample_text :: string where
  \<open>sample_text = ''{"cookies":[{"name":"session","value":"abc","domain":"example.com","path":"/"}],"origins":[{"origin":"https://example.com","localStorage":[{"name":"theme","value":"dark"}]}]}''\<close>

text \<open>A file whose only origin entry has no \<^verbatim>\<open>origin\<close>.\<close>

definition partial_snapshot :: jsval where
  "partial_snapshot =
     JObj [(''cookies'', JArr [sample_cookie]),
           (''origins'', JArr [JObj [(''localStorage'', JArr [item_json (''theme'', ''dark'')])]])]"

definition partial_text :: string where
  \<open>partial_text = ''{"cookies":[{"name":"session","value":"abc","domain":"example.com","path":"/"}],"origins":[{"localStorage":[{"name":"theme","value":"dark"}]}]}''\<close>

definition sample_runtime :: runtime where
  "sample_runtime =
     stub_runtime [(sample_text, sample_snapshot), (''{}'', JObj []), (partial_text, partial_snapshot)]"

definition sample_world :: "(tab, string \<rightharpoonup> string) world" where
  "sample_world =
     blank_world [''/s.json'' \<mapsto> sample_text, ''/empty.json'' \<mapsto> ''{}'',
       ''/partial.json'' \<mapsto> partial_text, ''/bad.json'' \<mapsto> ''{oops'']"

text \<open>Loading the sample file into the blank tab, with navigations settling by \<open>settle\<close>.\<close>

definition sample_load ::
  "(string \<Rightarrow> string) \<Rightarrow> (error + string) \<times> (tab, string \<rightharpoonup> string) run" where
  "sample_load settle =
     loadStorageState_action (stub_browser settle) stub_filesys sample_runtime ''/s.json''
       (sample_world, [])"




text \<open>Loading the file with the incomplete origin entry.\<close>

definition partial_load :: "(error + string) \<times> (tab, string \<rightharpoonup> string) run" where
  "partial_load =
     loadStorageState_action (stub_browser with_slash) stub_filesys sample_runtime ''/partial.json''
       (sample_world, [])"

text \<open>Saving the blank tab over a file that exists.\<close>

definition save_world :: "(tab, string \<rightharpoonup> string) world" where
  "save_world = blank_world [''/a/b/state.json'' \<mapsto> ''old'']"

definition sample_save :: "(error + string) \<times> (tab, string \<rightharpoonup> string) run" where
  "sample_save =
     saveStorageState_action (stub_browser with_slash) stub_filesys sample_runtime ''/a/b/state.json''
       (save_world, [])"

text \<open>A snapshot with two entries for the same origin, its file and its load.\<close>

definition dup_items1 :: "(string \<times> string) list" where
  "dup_items1 = [(''theme'', ''dark''), (''lang'', ''en'')]"

definition dup_items2 :: "(string \<times> string) list" where
  "dup_items2 = [(''theme'', ''light'')]"

definition dup_snapshot :: jsval where
  "dup_snapshot =
     snapshot_json [] [(''https://example.com'', dup_items1), (''https://example.com'', dup_items2)]"

definition dup_text :: string where
  \<open>dup_text = ''{"cookies":[],"origins":[{"origin":"https://example.com","localStorage":[{"name":"theme","value":"dark"},{"name":"lang","value":"en"}]},{"origin":"https://example.com","localStorage":[{"name":"theme","value":"light"}]}]}''\<close>

definition dup_runtime :: runtime where
  "dup_runtime = stub_runtime [(dup_text, dup_snapshot)]"

definition dup_world :: "(tab, string \<rightharpoonup> string) world" where
  "dup_world = blank_world [''/dup.json'' \<mapsto> dup_text]"

definition dup_load :: "(error + string) \<times> (tab, string \<rightharpoonup> string) run" where
  "dup_load =
     loadStorageState_action (stub_browser with_slash) stub_filesys dup_runtime ''/dup.json''
       (dup_world, [])"

section \<open>Properties of the log\<close>

text \<open>
  What the second loop can add to the log: a navigation to the \<^verbatim>\<open>origin\<close> of the entry
  it is processing, or an evaluation of the page function on the \<^verbatim>\<open>localStorage\<close> of
  that entry.
\<close>

definition loop_event :: "runtime \<Rightarrow> ('s, 'f) event \<Rightarrow> bool" where
  "loop_event rt ev =
     (\<exists>e. ev_entry ev = Some e \<and>
        ((\<exists>v. ev_call ev = Goto v \<and> get_prop e ''origin'' = Inr v) \<or>
         (\<exists>a. ev_call ev = Evaluate (PageFunction (inject_items rt)) a \<and>
              get_prop e ''localStorage'' = Inr a)))"

text \<open>
  \<open>adds Q r r'\<close>: the log of \<open>r'\<close> is the log of \<open>r\<close> followed by events that all
  satisfy \<open>Q\<close>.
\<close>

definition adds :: "(('s, 'f) event \<Rightarrow> bool) \<Rightarrow> ('s, 'f) run \<Rightarrow> ('s, 'f) run \<Rightarrow> bool" where
  "adds Q r r' = (\<exists>new. snd r' = snd r @ new \<and> (\<forall>ev \<in> set new. Q ev))"

text \<open>
  \<open>at_origin\<close>: if the event is a script evaluation issued for an entry whose
  \<^verbatim>\<open>origin\<close> is the string \<open>u\<close>, the tab's URL at that moment starts with \<open>u\<close>.
  \<open>landed\<close>: if the event is a navigation to the string \<open>u\<close>, issued for an entry that
  has something to inject, and the navigation succeeds, it leaves the tab on a URL that
  starts with \<open>u\<close>.  \<open>adds_if P Q r r'\<close>: the log of \<open>r'\<close> is the log of \<open>r\<close> followed
  by events that all satisfy \<open>Q\<close> if they all satisfy \<open>P\<close>.
\<close>

definition at_origin :: "'s browser \<Rightarrow> ('s, 'f) event \<Rightarrow> bool" where
  "at_origin B ev =
     (\<forall>sc items e u. ev_call ev = Evaluate sc items \<longrightarrow> ev_entry ev = Some e \<longrightarrow>
        get_prop e ''origin'' = Inr (JStr u) \<longrightarrow> prefix u (pw_url B (sess (ev_world ev))))"

definition landed :: "'s browser \<Rightarrow> runtime \<Rightarrow> ('s, 'f) event \<Rightarrow> bool" where
  "landed B rt ev =
     (\<forall>u e items s'. ev_call ev = Goto (JStr u) \<longrightarrow> ev_entry ev = Some e \<longrightarrow>
        get_prop e ''localStorage'' = Inr items \<longrightarrow> nonempty rt items = Inr True \<longrightarrow>
        pw_goto B (JStr u) (sess (ev_world ev)) = (None, s') \<longrightarrow> prefix u (pw_url B s'))"

definition adds_if ::
  "(('s, 'f) event \<Rightarrow> bool) \<Rightarrow> (('s, 'f) event \<Rightarrow> bool) \<Rightarrow> ('s, 'f) run \<Rightarrow> ('s, 'f) run \<Rightarrow> bool" where
  "adds_if P Q r r' =
     (\<exists>new. snd r' = snd r @ new \<and> ((\<forall>ev \<in> set new. P ev) \<longrightarrow> (\<forall>ev \<in> set new. Q ev)))"

text \<open>
  \<open>tracked B F w0 x r\<close>: the log of \<open>r\<close> is a consistent log from \<open>w0\<close> whose replay
  ends in the world of \<open>r\<close>; if a call of the log failed, its error is \<open>x\<close>; and if \<open>x\<close>
  is \<open>None\<close>, no call failed.
\<close>

definition tracked ::
  "'s browser \<Rightarrow> 'f filesys \<Rightarrow> ('s, 'f) world \<Rightarrow> error option \<Rightarrow> ('s, 'f) run \<Rightarrow> bool" where
  "tracked B F w0 x r =
     (consistent B F w0 (snd r) \<and> snd (outcome B F w0 (snd r)) = fst r \<and>
      (\<forall>e. fst (outcome B F w0 (snd r)) = Some e \<longrightarrow> x = Some e) \<and>
      (x = None \<longrightarrow> fst (outcome B F w0 (snd r)) = None))"

text \<open>
  \<open>storage_lens\<close>: the \<^verbatim>\<open>localStorage\<close> that the tab shows after it was replaced is the
  replacement.  \<open>inject_call\<close>: the evaluation that the action issues for a list of items
  in the format of the snapshot.
\<close>

definition storage_lens :: "'s browser \<Rightarrow> bool" where
  "storage_lens B = (\<forall>m s. pw_localStorage B (pw_set_localStorage B m s) = m)"

definition inject_call :: "runtime \<Rightarrow> (string \<times> string) list \<Rightarrow> call" where
  "inject_call rt items = Evaluate (PageFunction (inject_items rt)) (JArr (map item_json items))"

section \<open>Helper lemmas\<close>

lemma issue_eq:
  "issue B F entry c (w, lg) = (fst (exec B F c w), (snd (exec B F c w), lg @ [Event c w entry]))"
  by (simp add: issue_def split: prod.splits)

lemma issue_log:
  assumes "issue B F entry c r = (res, r')"
  shows "snd r' = snd r @ [Event c (fst r) entry]"
  using assms by (cases r) (auto simp: issue_eq)

lemma apply_cookies_cases:
  assumes "apply_cookies B F rt st r = (res, r')"
  shows "(r' = r \<and> (\<forall>c. get_prop st ''cookies'' = Inr c \<longrightarrow> nonempty rt c \<noteq> Inr True)) \<or>
     (\<exists>c. get_prop st ''cookies'' = Inr c \<and> nonempty rt c = Inr True \<and>
          issue B F None (AddCookies c) r = (res, r'))"
  using assms
  by (auto simp: apply_cookies_def split: sum.splits if_splits)

lemma navigate_cases:
  assumes "navigate_to_origin B F rt e origin r = (res, r')"
  shows "(r' = r \<and> res = None \<and> startsWith rt (pw_url B (sess (fst r))) origin = Inr True) \<or>
     (r' = r \<and> (\<exists>x. res = Some x \<and> startsWith rt (pw_url B (sess (fst r))) origin = Inl x)) \<or>
     (startsWith rt (pw_url B (sess (fst r))) origin = Inr False \<and>
      issue B F (Some e) (Goto origin) r = (res, r'))"
  using assms
  by (auto simp: navigate_to_origin_def Let_def split: sum.splits if_splits)

lemma inject_cases:
  assumes "inject_localStorage B F rt e r = (res, r')"
  shows "(r' = r \<and> (\<forall>items. get_prop e ''localStorage'' = Inr items \<longrightarrow> nonempty rt items \<noteq> Inr True)) \<or>
     (\<exists>items. get_prop e ''localStorage'' = Inr items \<and> nonempty rt items = Inr True \<and>
          issue B F (Some e) (Evaluate (PageFunction (inject_items rt)) items) r = (res, r'))"
  using assms
  by (auto simp: inject_localStorage_def split: sum.splits if_splits)

lemma restore_origin_cases:
  assumes "restore_origin B F rt e r = (res, r')"
  shows "(r' = r \<and> (\<exists>x. get_prop e ''origin'' = Inl x \<and> res = Some x)) \<or>
     (\<exists>origin x. get_prop e ''origin'' = Inr origin \<and> res = Some x \<and>
          navigate_to_origin B F rt e origin r = (Some x, r')) \<or>
     (\<exists>origin r1. get_prop e ''origin'' = Inr origin \<and>
          navigate_to_origin B F rt e origin r = (None, r1) \<and>
          inject_localStorage B F rt e r1 = (res, r'))"
  using assms
  by (auto simp: restore_origin_def split: sum.splits option.splits prod.splits)

lemma restore_cases:
  assumes "restore B F rt path st r = (res, r')"
  shows "\<exists>c r1. apply_cookies B F rt st r = (c, r1) \<and>
     ((r' = r1 \<and> (\<exists>x. res = Inl x) \<and> (\<forall>x. c = Some x \<longrightarrow> res = Inl x)) \<or>
      (c = None \<and> (\<exists>entries l. origins_or_empty rt st = Inr entries \<and>
          restore_origins B F rt entries r1 = (l, r') \<and>
          res = (case l of Some x \<Rightarrow> Inl x | None \<Rightarrow> Inr (''Storage state loaded from '' @ path)))))"
proof -
  obtain c r1 where ac: "apply_cookies B F rt st r = (c, r1)"
    by (cases "apply_cookies B F rt st r") blast
  show ?thesis
  proof (cases c)
    case (Some x)
    with assms ac have "r' = r1" "res = Inl x" by (simp_all add: restore_def)
    with ac Some show ?thesis by simp
  next
    case None
    show ?thesis
    proof (cases "collect_origins rt st")
      case (Inl x)
      with assms ac None have "r' = r1" "res = Inl x" by (simp_all add: restore_def)
      with ac None show ?thesis by simp
    next
      case co: (Inr os)
      show ?thesis
      proof (cases "origins_or_empty rt st")
        case (Inl x)
        with assms ac None co have "r' = r1" "res = Inl x" by (simp_all add: restore_def)
        with ac None show ?thesis by simp
      next
        case (Inr entries)
        obtain l r2 where lp: "restore_origins B F rt entries r1 = (l, r2)"
          by (cases "restore_origins B F rt entries r1") blast
        with assms ac None co Inr
        have "r' = r2" "res = (case l of Some x \<Rightarrow> Inl x | None \<Rightarrow> Inr (''Storage state loaded from '' @ path))"
          by (cases l; simp add: restore_def)+
        with ac None Inr lp show ?thesis by simp
      qed
    qed
  qed
qed

lemma adds_refl: "adds Q r r"
  by (simp add: adds_def)

lemma adds_trans: "adds Q r r1 \<Longrightarrow> adds Q r1 r2 \<Longrightarrow> adds Q r r2"
  by (auto simp: adds_def)

lemma adds_mono:
  assumes "adds Q r r'" and "\<And>ev. Q ev \<Longrightarrow> Q' ev"
  shows "adds Q' r r'"
  using assms unfolding adds_def by blast

lemma adds_issue:
  assumes "issue B F entry c r = (res, r')" and "Q (Event c (fst r) entry)"
  shows "adds Q r r'"
  using issue_log [OF assms(1)] assms(2) by (simp add: adds_def)

lemma restore_origin_loop_event:
  assumes "restore_origin B F rt e r = (res, r')"
  shows "adds (loop_event rt) r r'"
proof -
  have nav: "adds (loop_event rt) r r1"
    if "get_prop e ''origin'' = Inr origin" "navigate_to_origin B F rt e origin r = (x, r1)"
    for origin x r1
    using navigate_cases [OF that(2)]
  proof (elim disjE conjE exE)
    assume "r1 = r" and "x = None"
    then show ?thesis by (simp add: adds_refl)
  next
    fix y
    assume "r1 = r" and "x = Some y"
    then show ?thesis by (simp add: adds_refl)
  next
    assume i: "issue B F (Some e) (Goto origin) r = (x, r1)"
    show ?thesis by (rule adds_issue [OF i]) (simp add: loop_event_def that(1))
  qed
  have inj: "adds (loop_event rt) r1 r2"
    if "inject_localStorage B F rt e r1 = (x, r2)" for x r1 r2
    using inject_cases [OF that]
  proof (elim disjE conjE exE)
    assume "r2 = r1"
    then show ?thesis by (simp add: adds_refl)
  next
    fix items
    assume g: "get_prop e ''localStorage'' = Inr items"
      and i: "issue B F (Some e) (Evaluate (PageFunction (inject_items rt)) items) r1 = (x, r2)"
    show ?thesis by (rule adds_issue [OF i]) (simp add: loop_event_def g)
  qed
  from restore_origin_cases [OF assms] show ?thesis
  proof (elim disjE exE conjE)
    assume "r' = r"
    then show ?thesis by (simp add: adds_refl)
  next
    fix origin x
    assume "get_prop e ''origin'' = Inr origin" "navigate_to_origin B F rt e origin r = (Some x, r')"
    then show ?thesis by (rule nav)
  next
    fix origin r1
    assume og: "get_prop e ''origin'' = Inr origin"
      and n: "navigate_to_origin B F rt e origin r = (None, r1)"
      and i: "inject_localStorage B F rt e r1 = (res, r')"
    from nav [OF og n] inj [OF i] show ?thesis by (rule adds_trans)
  qed
qed

lemma restore_origins_adds:
  assumes step: "\<And>e r res r'. restore_origin B F rt e r = (res, r') \<Longrightarrow> adds Q r r'"
    and run: "restore_origins B F rt es r = (res, r')"
  shows "adds Q r r'"
  using run
proof (induction es arbitrary: r)
  case Nil
  then show ?case by (simp add: adds_refl)
next
  case (Cons e es)
  obtain x r1 where s1: "restore_origin B F rt e r = (x, r1)"
    by (cases "restore_origin B F rt e r") blast
  show ?case
  proof (cases x)
    case None
    with Cons.prems s1 have "restore_origins B F rt es r1 = (res, r')" by simp
    from Cons.IH [OF this] step [OF s1] show ?thesis by (rule adds_trans [rotated])
  next
    case (Some err)
    with Cons.prems s1 have "r' = r1" by simp
    with step [OF s1] show ?thesis by simp
  qed
qed

lemma restore_adds:
  assumes ck: "\<And>c. Q (Event (AddCookies c) (fst r) None)"
    and step: "\<And>e r res r'. restore_origin B F rt e r = (res, r') \<Longrightarrow> adds Q r r'"
    and run: "restore B F rt path st r = (res, r')"
  shows "adds Q r r'"
proof -
  from restore_cases [OF run] obtain c r1 where ac: "apply_cookies B F rt st r = (c, r1)"
    and d: "r' = r1 \<or> (\<exists>entries l. restore_origins B F rt entries r1 = (l, r'))"
    by blast
  have 1: "adds Q r r1"
    using apply_cookies_cases [OF ac]
  proof (elim disjE conjE exE)
    assume "r1 = r"
    then show ?thesis by (simp add: adds_refl)
  next
    fix c'
    assume i: "issue B F None (AddCookies c') r = (c, r1)"
    show ?thesis by (rule adds_issue [OF i]) (rule ck)
  qed
  from d have "adds Q r1 r'"
  proof (elim disjE exE)
    assume "r' = r1"
    then show ?thesis by (simp add: adds_refl)
  next
    fix entries l
    assume "restore_origins B F rt entries r1 = (l, r')"
    with step show ?thesis by (rule restore_origins_adds)
  qed
  with 1 show ?thesis by (rule adds_trans)
qed

lemma startsWith_string: "startsWith rt s (JStr u) = Inr (prefix u s)"
  by (simp add: startsWith_def to_string_def)


lemma adds_if_refl: "adds_if P Q r r"
  by (simp add: adds_if_def)

lemma adds_if_adds: "adds Q r r' \<Longrightarrow> adds_if P Q r r'"
  unfolding adds_def adds_if_def by blast

lemma adds_if_trans:
  assumes "adds_if P Q r r1" and "adds_if P Q r1 r2"
  shows "adds_if P Q r r2"
proof -
  from assms(1) obtain n1 where 1: "snd r1 = snd r @ n1"
    "(\<forall>ev \<in> set n1. P ev) \<longrightarrow> (\<forall>ev \<in> set n1. Q ev)"
    unfolding adds_if_def by blast
  from assms(2) obtain n2 where 2: "snd r2 = snd r1 @ n2"
    "(\<forall>ev \<in> set n2. P ev) \<longrightarrow> (\<forall>ev \<in> set n2. Q ev)"
    unfolding adds_if_def by blast
  have "snd r2 = snd r @ (n1 @ n2)" using 1(1) 2(1) by simp
  moreover have "(\<forall>ev \<in> set (n1 @ n2). P ev) \<longrightarrow> (\<forall>ev \<in> set (n1 @ n2). Q ev)"
    using 1(2) 2(2) by auto
  ultimately show ?thesis unfolding adds_if_def by blast
qed

lemma restore_origin_at_origin:
  assumes run: "restore_origin B F rt e r = (res, r')"
  shows "adds_if (landed B rt) (at_origin B) r r'"
proof -
  obtain w lg where r: "r = (w, lg)" by (cases r) blast
  have goto_only: "adds_if (landed B rt) (at_origin B) r r1"
    if "issue B F (Some e) (Goto origin) r = (x, r1)" for origin x r1
    by (rule adds_if_adds, rule adds_issue [OF that]) (simp add: at_origin_def)
  from restore_origin_cases [OF run] show ?thesis
  proof (elim disjE exE conjE)
    assume "r' = r"
    then show ?thesis by (simp add: adds_if_refl)
  next
    fix origin x
    assume n: "navigate_to_origin B F rt e origin r = (Some x, r')"
    from navigate_cases [OF n] show ?thesis
    proof (elim disjE exE conjE)
      assume "r' = r"
      then show ?thesis by (simp add: adds_if_refl)
    next
      assume "r' = r"
      then show ?thesis by (simp add: adds_if_refl)
    next
      assume "issue B F (Some e) (Goto origin) r = (Some x, r')"
      then show ?thesis by (rule goto_only)
    qed
  next
    fix origin r1
    assume og: "get_prop e ''origin'' = Inr origin"
      and n: "navigate_to_origin B F rt e origin r = (None, r1)"
      and i: "inject_localStorage B F rt e r1 = (res, r')"
    from inject_cases [OF i] show ?thesis
    proof (elim disjE exE conjE)
      assume same: "r' = r1"
      from navigate_cases [OF n] show ?thesis
      proof (elim disjE exE conjE)
        assume "r1 = r"
        with same show ?thesis by (simp add: adds_if_refl)
      next
        assume "r1 = r"
        with same show ?thesis by (simp add: adds_if_refl)
      next
        assume "issue B F (Some e) (Goto origin) r = (None, r1)"
        with same show ?thesis by (simp add: goto_only)
      qed
    next
      fix items
      assume ls: "get_prop e ''localStorage'' = Inr items"
        and nonemp: "nonempty rt items = Inr True"
        and ev: "issue B F (Some e) (Evaluate (PageFunction (inject_items rt)) items) r1 = (res, r')"
      let ?E = "Event (Evaluate (PageFunction (inject_items rt)) items) (fst r1) (Some e)"
      from issue_log [OF ev] have l2: "snd r' = snd r1 @ [?E]" .
      from navigate_cases [OF n] show ?thesis
      proof (elim disjE exE conjE)
        assume same: "r1 = r"
          and sw: "startsWith rt (pw_url B (sess (fst r))) origin = Inr True"
        have "at_origin B ?E"
          using og sw same by (auto simp: at_origin_def startsWith_string)
        with l2 same show ?thesis by (simp add: adds_if_def)
      next
        fix y
        assume "None = Some y"
        then show ?thesis by simp
      next
        assume g: "issue B F (Some e) (Goto origin) r = (None, r1)"
        let ?G = "Event (Goto origin) w (Some e)"
        from g r have r1: "r1 = (snd (exec B F (Goto origin) w), lg @ [?G])"
          and ok: "fst (exec B F (Goto origin) w) = None"
          by (auto simp: issue_eq)
        have l: "snd r' = snd r @ [?G, ?E]" using l2 r1 r by simp
        have "at_origin B ?E" if p: "landed B rt ?G"
          unfolding at_origin_def
        proof (intro allI impI)
          fix sc its e' u
          assume "ev_entry ?E = Some e'" and o: "get_prop e' ''origin'' = Inr (JStr u)"
          then have e': "e' = e" by simp
          with o og have origin: "origin = JStr u" by simp
          obtain y s' where pg: "pw_goto B (JStr u) (sess w) = (y, s')"
            by (cases "pw_goto B (JStr u) (sess w)") blast
          with ok origin have y: "y = None" by simp
          from pg origin r1 have s': "sess (fst r1) = s'" by simp
          from p ls nonemp pg y origin have "prefix u (pw_url B s')"
            unfolding landed_def by auto
          with s' show "prefix u (pw_url B (sess (ev_world ?E)))" by simp
        qed
        moreover have "at_origin B ?G" by (simp add: at_origin_def)
        ultimately show ?thesis using l by (simp add: adds_if_def)
      qed
    qed
  qed
qed

lemma restore_origins_adds_if:
  assumes step: "\<And>e r res r'. restore_origin B F rt e r = (res, r') \<Longrightarrow> adds_if P Q r r'"
    and run: "restore_origins B F rt es r = (res, r')"
  shows "adds_if P Q r r'"
  using run
proof (induction es arbitrary: r)
  case Nil
  then show ?case by (simp add: adds_if_refl)
next
  case (Cons e es)
  obtain x r1 where s1: "restore_origin B F rt e r = (x, r1)"
    by (cases "restore_origin B F rt e r") blast
  show ?case
  proof (cases x)
    case None
    with Cons.prems s1 have "restore_origins B F rt es r1 = (res, r')" by simp
    from step [OF s1] Cons.IH [OF this] show ?thesis by (rule adds_if_trans)
  next
    case (Some err)
    with Cons.prems s1 have "r' = r1" by simp
    with step [OF s1] show ?thesis by simp
  qed
qed

lemma restore_adds_if:
  assumes ck: "\<And>c. Q (Event (AddCookies c) (fst r) None)"
    and step: "\<And>e r res r'. restore_origin B F rt e r = (res, r') \<Longrightarrow> adds_if P Q r r'"
    and run: "restore B F rt path st r = (res, r')"
  shows "adds_if P Q r r'"
proof -
  from restore_cases [OF run] obtain c r1 where ac: "apply_cookies B F rt st r = (c, r1)"
    and d: "r' = r1 \<or> (\<exists>entries l. restore_origins B F rt entries r1 = (l, r'))"
    by blast
  have 1: "adds_if P Q r r1"
    using apply_cookies_cases [OF ac]
  proof (elim disjE conjE exE)
    assume "r1 = r"
    then show ?thesis by (simp add: adds_if_refl)
  next
    fix c'
    assume i: "issue B F None (AddCookies c') r = (c, r1)"
    show ?thesis by (rule adds_if_adds, rule adds_issue [OF i]) (rule ck)
  qed
  from d have "adds_if P Q r1 r'"
  proof (elim disjE exE)
    assume "r' = r1"
    then show ?thesis by (simp add: adds_if_refl)
  next
    fix entries l
    assume "restore_origins B F rt entries r1 = (l, r')"
    with step show ?thesis by (rule restore_origins_adds_if)
  qed
  with 1 show ?thesis by (rule adds_if_trans)
qed

lemma load_parsed:
  assumes "fs_readFile F path (disk (fst r)) = Inr content"
    and "json_parse rt content = Some storageState"
  shows "loadStorageState_action B F rt path r = restore B F rt path storageState r"
  using assms by (simp add: loadStorageState_action_def)

lemma restore_after_cookies:
  assumes "restore B F rt path st r = (res, r')"
  shows "\<exists>c r1. apply_cookies B F rt st r = (c, r1) \<and> adds (loop_event rt) r1 r'"
proof -
  from restore_cases [OF assms] obtain c r1 where ac: "apply_cookies B F rt st r = (c, r1)"
    and d: "r' = r1 \<or> (\<exists>entries l. restore_origins B F rt entries r1 = (l, r'))"
    by blast
  from d have "adds (loop_event rt) r1 r'"
  proof (elim disjE exE)
    assume "r' = r1"
    then show ?thesis by (simp add: adds_refl)
  next
    fix entries l
    assume "restore_origins B F rt entries r1 = (l, r')"
    with restore_origin_loop_event show ?thesis by (rule restore_origins_adds)
  qed
  with ac show ?thesis by blast
qed

lemma no_cookies:
  assumes "map_of kvs ''cookies'' = None"
  shows "apply_cookies B F rt (JObj kvs) r = (None, r)"
    and "apply_cookies B F rt (JObj ((''cookies'', JArr []) # kvs)) r = (None, r)"
  using assms by (simp_all add: apply_cookies_def nonempty_def)

lemma origins_beside_cookies:
  "collect_origins rt (JObj ((''cookies'', c) # kvs)) = collect_origins rt (JObj kvs)"
  "origins_or_empty rt (JObj ((''cookies'', c) # kvs)) = origins_or_empty rt (JObj kvs)"
  by (simp_all add: collect_origins_def origins_or_empty_def)

lemma no_origins:
  assumes "map_of kvs ''origins'' = None"
  shows "collect_origins rt (JObj kvs) = Inr []"
    and "collect_origins rt (JObj ((''origins'', JArr []) # kvs)) = Inr []"
    and "origins_or_empty rt (JObj kvs) = Inr []"
    and "origins_or_empty rt (JObj ((''origins'', JArr []) # kvs)) = Inr []"
  using assms by (simp_all add: collect_origins_def origins_or_empty_def)

lemma cookies_beside_origins:
  "apply_cookies B F rt (JObj ((''origins'', c) # kvs)) r = apply_cookies B F rt (JObj kvs) r"
  by (simp add: apply_cookies_def)

lemma restore_cookies_absent:
  assumes "map_of kvs ''cookies'' = None"
  shows "restore B F rt path (JObj kvs) r = restore B F rt path (JObj ((''cookies'', JArr []) # kvs)) r"
  unfolding restore_def no_cookies [OF assms] origins_beside_cookies ..

lemma restore_origins_absent:
  assumes "map_of kvs ''origins'' = None"
  shows "restore B F rt path (JObj kvs) r = restore B F rt path (JObj ((''origins'', JArr []) # kvs)) r"
  unfolding restore_def no_origins [OF assms] cookies_beside_origins ..

lemma restore_both_absent:
  assumes "map_of kvs ''cookies'' = None" and "map_of kvs ''origins'' = None"
  shows "restore B F rt path (JObj kvs) r = (Inr (''Storage state loaded from '' @ path), r)"
  by (simp add: restore_def no_cookies [OF assms(1)] no_origins [OF assms(2)])

lemma log_snoc:
  assumes "consistent B F w0 lg" and "outcome B F w0 lg = (None, w)"
  shows "consistent B F w0 (lg @ [Event c w t]) \<and> outcome B F w0 (lg @ [Event c w t]) = exec B F c w"
  using assms
proof (induction lg arbitrary: w0)
  case Nil
  then show ?case by (cases "exec B F c w") (auto split: option.splits)
next
  case (Cons ev evs)
  obtain x w1 where e: "exec B F (ev_call ev) w0 = (x, w1)"
    by (cases "exec B F (ev_call ev) w0") blast
  with Cons.prems(2) have x: "x = None" by (cases x) simp_all
  with e Cons.prems have "consistent B F w1 evs" "outcome B F w1 evs = (None, w)" by simp_all
  from Cons.IH [OF this] e x Cons.prems(1) show ?case by simp
qed

lemma tracked_start: "tracked B F w None (w, [])"
  by (simp add: tracked_def)

lemma tracked_same: "tracked B F w0 None r \<Longrightarrow> tracked B F w0 x r"
  by (simp add: tracked_def)

lemma tracked_issue:
  assumes "tracked B F w0 None r" and "issue B F t c r = (x, r')"
  shows "tracked B F w0 x r'"
proof -
  obtain w lg where r: "r = (w, lg)" by (cases r) blast
  from assms(1) r have c: "consistent B F w0 lg" and o: "outcome B F w0 lg = (None, w)"
    by (auto simp: tracked_def prod_eq_iff)
  from assms(2) r have r': "r' = (snd (exec B F c w), lg @ [Event c w t])" and x: "x = fst (exec B F c w)"
    by (auto simp: issue_eq)
  from log_snoc [OF c o, of c t] show ?thesis
    by (simp add: tracked_def r' x)
qed

lemma apply_cookies_tracked:
  assumes "tracked B F w0 None r" and "apply_cookies B F rt st r = (x, r')"
  shows "tracked B F w0 x r'"
  using apply_cookies_cases [OF assms(2)]
proof (elim disjE conjE exE)
  assume "r' = r"
  with assms(1) show ?thesis by (simp add: tracked_same)
next
  fix c
  assume "issue B F None (AddCookies c) r = (x, r')"
  with assms(1) show ?thesis by (rule tracked_issue)
qed

lemma navigate_tracked:
  assumes "tracked B F w0 None r" and "navigate_to_origin B F rt e origin r = (x, r')"
  shows "tracked B F w0 x r'"
  using navigate_cases [OF assms(2)]
proof (elim disjE conjE exE)
  assume "r' = r" and "x = None"
  with assms(1) show ?thesis by simp
next
  fix y
  assume "r' = r"
  with assms(1) show ?thesis by (simp add: tracked_same)
next
  assume "issue B F (Some e) (Goto origin) r = (x, r')"
  with assms(1) show ?thesis by (rule tracked_issue)
qed

lemma inject_tracked:
  assumes "tracked B F w0 None r" and "inject_localStorage B F rt e r = (x, r')"
  shows "tracked B F w0 x r'"
  using inject_cases [OF assms(2)]
proof (elim disjE conjE exE)
  assume "r' = r"
  with assms(1) show ?thesis by (simp add: tracked_same)
next
  fix items
  assume "issue B F (Some e) (Evaluate (PageFunction (inject_items rt)) items) r = (x, r')"
  with assms(1) show ?thesis by (rule tracked_issue)
qed

lemma restore_origin_tracked:
  assumes "tracked B F w0 None r" and "restore_origin B F rt e r = (x, r')"
  shows "tracked B F w0 x r'"
  using restore_origin_cases [OF assms(2)]
proof (elim disjE conjE exE)
  assume "r' = r"
  with assms(1) show ?thesis by (simp add: tracked_same)
next
  fix origin y
  assume "x = Some y" and "navigate_to_origin B F rt e origin r = (Some y, r')"
  with assms(1) show ?thesis by (simp add: navigate_tracked)
next
  fix origin r1
  assume n: "navigate_to_origin B F rt e origin r = (None, r1)"
    and i: "inject_localStorage B F rt e r1 = (x, r')"
  from navigate_tracked [OF assms(1) n] i show ?thesis by (rule inject_tracked)
qed

lemma restore_origins_tracked:
  assumes "tracked B F w0 None r" and "restore_origins B F rt es r = (x, r')"
  shows "tracked B F w0 x r'"
  using assms
proof (induction es arbitrary: r)
  case Nil
  then show ?case by simp
next
  case (Cons e es)
  obtain y r1 where s: "restore_origin B F rt e r = (y, r1)"
    by (cases "restore_origin B F rt e r") blast
  from restore_origin_tracked [OF Cons.prems(1) s] have t: "tracked B F w0 y r1" .
  show ?case
  proof (cases y)
    case None
    with Cons.prems(2) s have "restore_origins B F rt es r1 = (x, r')" by simp
    with t None show ?thesis by (simp add: Cons.IH)
  next
    case (Some err)
    with Cons.prems(2) s have "x = Some err" "r' = r1" by simp_all
    with t Some show ?thesis by simp
  qed
qed

lemma restore_tracked:
  assumes "tracked B F w0 None r" and "restore B F rt path st r = (res, r')"
  shows "tracked B F w0 (case res of Inl e \<Rightarrow> Some e | Inr msg \<Rightarrow> None) r'"
proof -
  from restore_cases [OF assms(2)] obtain c r1 where ac: "apply_cookies B F rt st r = (c, r1)"
    and d: "(r' = r1 \<and> (\<exists>x. res = Inl x) \<and> (\<forall>x. c = Some x \<longrightarrow> res = Inl x)) \<or>
      (c = None \<and> (\<exists>entries l. origins_or_empty rt st = Inr entries \<and>
          restore_origins B F rt entries r1 = (l, r') \<and>
          res = (case l of Some x \<Rightarrow> Inl x | None \<Rightarrow> Inr (''Storage state loaded from '' @ path))))"
    by blast
  from apply_cookies_tracked [OF assms(1) ac] have t: "tracked B F w0 c r1" .
  from d show ?thesis
  proof (elim disjE conjE exE)
    fix x
    assume a: "r' = r1" "res = Inl x" "\<forall>x. c = Some x \<longrightarrow> res = Inl x"
    show ?thesis
    proof (cases c)
      case None
      with t a show ?thesis by (simp add: tracked_same)
    next
      case (Some y)
      with t a show ?thesis by simp
    qed
  next
    fix entries l
    assume a: "c = None" "restore_origins B F rt entries r1 = (l, r')"
      "res = (case l of Some x \<Rightarrow> Inl x | None \<Rightarrow> Inr (''Storage state loaded from '' @ path))"
    from t a(1) have "tracked B F w0 None r1" by simp
    from restore_origins_tracked [OF this a(2)] a(3) show ?thesis
      by (cases l) simp_all
  qed
qed

lemma save_unfold:
  assumes cap: "pw_storageState B (sess w) = Inr storageState"
    and mk: "fs_mkdir F (path_dirname rt path) True (disk w) = (m, f1)"
    and wr: "fs_writeFile F path (json_stringify rt storageState 2) ''utf-8'' f1 = (x, f2)"
  shows "saveStorageState_action B F rt path (w, lg) =
     (case m of
        Some e \<Rightarrow> (Inl e, (w\<lparr>disk := f1\<rparr>, lg @ [Event (Mkdir (path_dirname rt path) True) w None]))
      | None \<Rightarrow>
          (case x of Some e \<Rightarrow> Inl e | None \<Rightarrow> Inr (''Storage state saved to '' @ path),
           (w\<lparr>disk := f2\<rparr>,
            lg @ [Event (Mkdir (path_dirname rt path) True) w None,
                  Event (WriteFile path (json_stringify rt storageState 2) ''utf-8'') (w\<lparr>disk := f1\<rparr>) None])))"
  using assms
  by (cases m; cases x) (simp_all add: saveStorageState_action_def issue_eq Let_def)

lemma sample_save_pair:
  "saveStorageState_action (stub_browser with_slash) stub_filesys sample_runtime ''/a/b/state.json'' (save_world, [])
     = (fst sample_save, (fst (snd sample_save), snd (snd sample_save)))"
  by (simp add: sample_save_def)

lemma stub_dirname: "path_dirname sample_runtime ''/a/b/state.json'' = ''/a/b''"
  by (simp add: sample_runtime_def stub_runtime_def)

lemma restore_origins_append:
  "restore_origins B F rt (xs @ ys) r =
     (case restore_origins B F rt xs r of
        (Some e, r1) \<Rightarrow> (Some e, r1)
      | (None, r1) \<Rightarrow> restore_origins B F rt ys r1)"
proof (induction xs arbitrary: r)
  case Nil
  then show ?case by simp
next
  case (Cons x xs)
  obtain y r1 where s: "restore_origin B F rt x r = (y, r1)"
    by (cases "restore_origin B F rt x r") blast
  show ?case
  proof (cases y)
    case None
    with s Cons.IH [of r1] show ?thesis by simp
  next
    case (Some e)
    with s show ?thesis by simp
  qed
qed

lemma restore_origins_split:
  assumes "restore_origins B F rt (xs @ ys) r = (None, r')"
  shows "\<exists>r1. restore_origins B F rt xs r = (None, r1) \<and> restore_origins B F rt ys r1 = (None, r')"
proof -
  obtain y r1 where s: "restore_origins B F rt xs r = (y, r1)"
    by (cases "restore_origins B F rt xs r") blast
  with assms show ?thesis
    by (cases y) (simp_all add: restore_origins_append)
qed

lemma restore_origins_log:
  assumes "restore_origins B F rt es r = (x, r')"
  shows "\<exists>new. snd r' = snd r @ new"
proof -
  have step: "adds (\<lambda>ev. True) r r'" if "restore_origin B F rt e r = (x, r')" for e r x r'
    by (rule adds_mono [OF restore_origin_loop_event [OF that]]) simp
  have "adds (\<lambda>ev. True) r r'"
    using step assms by (rule restore_origins_adds)
  then show ?thesis by (simp add: adds_def)
qed

lemma set_each_item:
  "set_each rt (item_json (k, v) # js) m =
     (if exceeds_quota rt k v m then (Some (DOMException ''QuotaExceededError''), m)
      else set_each rt js (m(k \<mapsto> v)))"
  by (simp add: item_json_def to_string_def setItem_def)

lemma set_each_items:
  assumes "set_each rt (map item_json items) m = (None, m')"
  shows "m' = m ++ map_of (rev items)"
  using assms
proof (induction items arbitrary: m)
  case Nil
  then show ?case by simp
next
  case (Cons kv items)
  obtain k v where kv: "kv = (k, v)" by (cases kv) blast
  from Cons.prems kv have "set_each rt (map item_json items) (m(k \<mapsto> v)) = (None, m')"
    by (cases "exceeds_quota rt k v m") (simp_all add: set_each_item del: set_each.simps)
  from Cons.IH [OF this] have "m' = m(k \<mapsto> v) ++ map_of (rev items)" .
  also have "\<dots> = m ++ map_of (rev (kv # items))"
    by (simp add: kv map_add_upd_left fun_eq_iff map_add_def split: option.splits)
  finally show ?case .
qed

lemma exec_inject_call:
  assumes lens: "storage_lens B"
    and ex: "exec B F (inject_call rt items) w = (None, w1)"
  shows "pw_localStorage B (sess w1) = pw_localStorage B (sess w) ++ map_of (rev items)"
proof -
  obtain x m where f: "inject_items rt (JArr (map item_json items)) (pw_localStorage B (sess w)) = (x, m)"
    by (cases "inject_items rt (JArr (map item_json items)) (pw_localStorage B (sess w))") blast
  from ex f have nofault: "pw_evaluate_fault B (sess w) = None"
    by (cases "pw_evaluate_fault B (sess w)") (auto simp: inject_call_def)
  with ex f have x: "x = None" and w1: "sess w1 = pw_set_localStorage B m (sess w)"
    by (auto simp: inject_call_def)
  from f x have "set_each rt (map item_json items) (pw_localStorage B (sess w)) = (None, m)"
    by (simp add: inject_items_def)
  from set_each_items [OF this] have "m = pw_localStorage B (sess w) ++ map_of (rev items)" .
  with w1 lens show ?thesis by (simp add: storage_lens_def)
qed

lemma restore_entry_injects:
  assumes ne: "items \<noteq> []"
    and run: "restore_origin B F rt (origin_json (u, items)) r = (None, r')"
  shows "\<exists>G w1. snd r' = snd r @ G @ [Event (inject_call rt items) w1 (Some (origin_json (u, items)))]
     \<and> exec B F (inject_call rt items) w1 = (None, fst r')"
proof -
  let ?e = "origin_json (u, items)"
  have ls: "get_prop ?e ''localStorage'' = Inr (JArr (map item_json items))"
    by (simp add: origin_json_def)
  have nonemp: "nonempty rt (JArr (map item_json items)) = Inr True"
    using ne by (simp add: nonempty_def)
  from restore_origin_cases [OF run] obtain origin r1
    where n: "navigate_to_origin B F rt ?e origin r = (None, r1)"
      and i: "inject_localStorage B F rt ?e r1 = (None, r')"
    by (auto simp: origin_json_def)
  from navigate_cases [OF n] have "\<exists>G. snd r1 = snd r @ G"
  proof (elim disjE conjE exE)
    assume "r1 = r"
    then show ?thesis by simp
  next
    fix y
    assume "None = Some y"
    then show ?thesis by simp
  next
    assume g: "issue B F (Some ?e) (Goto origin) r = (None, r1)"
    from issue_log [OF g] show ?thesis by simp
  qed
  then obtain G where G: "snd r1 = snd r @ G" by blast
  from inject_cases [OF i] ls nonemp
  have iss: "issue B F (Some ?e) (inject_call rt items) r1 = (None, r')"
    by (auto simp: inject_call_def)
  obtain w1 lg1 where r1: "r1 = (w1, lg1)" by (cases r1) blast
  from iss r1 have "exec B F (inject_call rt items) w1 = (None, fst r')"
    and "snd r' = lg1 @ [Event (inject_call rt items) w1 (Some ?e)]"
    by (auto simp: issue_eq prod_eq_iff)
  with G r1 show ?thesis by auto
qed


lemma restore_origins_single:
  assumes "restore_origins B F rt [e] r = (None, r')"
  shows "restore_origin B F rt e r = (None, r')"
proof -
  obtain y r1 where s: "restore_origin B F rt e r = (y, r1)"
    by (cases "restore_origin B F rt e r") blast
  with assms show ?thesis by (cases y) simp_all
qed

lemma origins_of_snapshot:
  "origins_or_empty rt (snapshot_json cookies os) = Inr (map origin_json os)"
  by (simp add: origins_or_empty_def snapshot_json_def)

lemma restore_success_loop:
  assumes "restore B F rt path st r = (Inr msg, r')"
  shows "\<exists>r1 entries. origins_or_empty rt st = Inr entries \<and> (\<exists>n. snd r1 = snd r @ n) \<and>
     restore_origins B F rt entries r1 = (None, r')"
proof -
  from restore_cases [OF assms] obtain c r1 entries l
    where ac: "apply_cookies B F rt st r = (c, r1)"
      and oe: "origins_or_empty rt st = Inr entries"
      and lp: "restore_origins B F rt entries r1 = (l, r')"
      and res: "Inr msg = (case l of Some x \<Rightarrow> Inl x | None \<Rightarrow> Inr (''Storage state loaded from '' @ path))"
    by auto
  from res have l: "l = None" by (cases l) simp_all
  from apply_cookies_cases [OF ac] have "\<exists>n. snd r1 = snd r @ n"
  proof (elim disjE conjE exE)
    assume "r1 = r"
    then show ?thesis by simp
  next
    fix c'
    assume "issue B F None (AddCookies c') r = (c, r1)"
    from issue_log [OF this] show ?thesis by simp
  qed
  with oe lp l show ?thesis by blast
qed

section \<open>The example of section 8\<close>

text \<open>
  Loading the sample file into a blank tab issues three calls, \<^verbatim>\<open>addCookies\<close>,
  \<^verbatim>\<open>goto\<close> and \<^verbatim>\<open>evaluate\<close>; afterwards the jar holds the cookie and reading the key
  \<^verbatim>\<open>theme\<close> on the page of the origin gives \<^verbatim>\<open>dark\<close>.
\<close>

lemmas run_simps =
  loadStorageState_action_def restore_def apply_cookies_def collect_origins_def
  origins_or_empty_def restore_origin_def navigate_to_origin_def inject_localStorage_def
  issue_def nonempty_def startsWith_def to_string_def inject_items_def setItem_def Let_def
  snapshot_json_def origin_json_def item_json_def
  stub_browser_def stub_filesys_def stub_runtime_def blank_tab_def blank_world_def
  sample_snapshot_def sample_cookie_def sample_text_def sample_runtime_def sample_world_def
  partial_snapshot_def partial_text_def with_slash_def to_www_def

lemma sample_read: "fs_readFile stub_filesys ''/s.json'' (disk sample_world) = Inr sample_text"
  by (simp add: stub_filesys_def sample_world_def blank_world_def)

lemma sample_parse: "json_parse sample_runtime sample_text = Some sample_snapshot"
  by (simp add: sample_runtime_def stub_runtime_def)

lemma sample_load_pair:
  "loadStorageState_action (stub_browser settle) stub_filesys sample_runtime ''/s.json'' (sample_world, [])
     = (fst (sample_load settle), (fst (snd (sample_load settle)), snd (snd (sample_load settle))))"
  by (simp add: sample_load_def)

lemma sample_run_calls:
  "map ev_call (snd (snd (sample_load with_slash)))
   = [AddCookies (JArr [sample_cookie]), Goto (JStr ''https://example.com''),
      Evaluate (PageFunction (inject_items sample_runtime)) (JArr [item_json (''theme'', ''dark'')])]"
  by (simp add: sample_load_def run_simps)

lemma sample_run_entries:
  "map ev_entry (snd (snd (sample_load settle)))
   = [None, Some (origin_json (''https://example.com'', [(''theme'', ''dark'')])),
      Some (origin_json (''https://example.com'', [(''theme'', ''dark'')]))]"
  by (simp add: sample_load_def run_simps)

lemma sample_run_urls:
  "map (\<lambda>ev. tab_url (sess (ev_world ev))) (snd (snd (sample_load settle)))
   = [''about:blank'', ''about:blank'', settle ''https://example.com'']"
  by (simp add: sample_load_def run_simps)

lemma sample_run_result:
  "fst (sample_load with_slash) = Inr ''Storage state loaded from /s.json''"
  by (simp add: sample_load_def run_simps)

lemma sample_run_session:
  "tab_jar (sess (fst (snd (sample_load with_slash)))) = [sample_cookie]
   \<and> tab_url (sess (fst (snd (sample_load with_slash)))) = ''https://example.com/''
   \<and> tab_stores (sess (fst (snd (sample_load with_slash)))) ''https://example.com/'' ''theme'' = Some ''dark''"
  by (simp add: sample_load_def run_simps)

section \<open>Malformed and incomplete files\<close>

text \<open>
  C4.  When the content of the file is not valid JSON, \<^verbatim>\<open>JSON.parse\<close> throws before the
  browser context is touched: the action fails with the parser's \<open>SyntaxError\<close>, and
  the session, the disk and the log of calls are what they were, so no cookie was
  added, no navigation issued and no script evaluated.
\<close>

theorem load_invalid_json:
  assumes "fs_readFile F path (disk (fst r)) = Inr content"
    and "json_parse rt content = None"
  shows "loadStorageState_action B F rt path r = (Inl SyntaxError, r)"
  using assms by (simp add: loadStorageState_action_def)

theorem load_invalid_json_witness:
  "fs_readFile stub_filesys ''/bad.json'' (disk (fst (sample_world, []))) = Inr ''{oops''
   \<and> json_parse sample_runtime ''{oops'' = None
   \<and> loadStorageState_action (stub_browser with_slash) stub_filesys sample_runtime ''/bad.json''
        (sample_world, [])
      = (Inl SyntaxError, (sample_world, []))"
proof -
  have rd: "fs_readFile stub_filesys ''/bad.json'' (disk (fst (sample_world, []))) = Inr ''{oops''"
    by (simp add: stub_filesys_def sample_world_def blank_world_def)
  have ps: "json_parse sample_runtime ''{oops'' = None"
    by (simp add: sample_runtime_def stub_runtime_def sample_text_def partial_text_def)
  show ?thesis
    using rd ps load_invalid_json [OF rd ps, of "stub_browser with_slash"] by simp
qed

text \<open>
  C2, as amended.  The action validates nothing: the parsed value is used as it is.
  When the file holds a JSON object without \<^verbatim>\<open>cookies\<close>, the load does what it does for
  the same object with \<^verbatim>\<open>cookies: []\<close>; without \<^verbatim>\<open>origins\<close>, what it does for the same
  object with \<^verbatim>\<open>origins: []\<close>; and without both it succeeds, having issued no call and
  changed nothing.  No \<open>SyntaxError\<close> is raised for a missing field.
\<close>

theorem load_missing_fields:
  assumes rd: "fs_readFile F path (disk (fst r)) = Inr content"
    and ps: "json_parse rt content = Some (JObj kvs)"
  shows "(map_of kvs ''cookies'' = None \<longrightarrow>
            loadStorageState_action B F rt path r
              = restore B F rt path (JObj ((''cookies'', JArr []) # kvs)) r)
     \<and> (map_of kvs ''origins'' = None \<longrightarrow>
            loadStorageState_action B F rt path r
              = restore B F rt path (JObj ((''origins'', JArr []) # kvs)) r)
     \<and> (map_of kvs ''cookies'' = None \<and> map_of kvs ''origins'' = None \<longrightarrow>
            loadStorageState_action B F rt path r = (Inr (''Storage state loaded from '' @ path), r))"
  using load_parsed [OF rd ps, of B]
    restore_cookies_absent [of kvs B F rt path r]
    restore_origins_absent [of kvs B F rt path r]
    restore_both_absent [of kvs B F rt path r]
  by simp

lemma empty_read: "fs_readFile stub_filesys ''/empty.json'' (disk (fst (sample_world, []))) = Inr ''{}''"
  by (simp add: stub_filesys_def sample_world_def blank_world_def)

lemma empty_parse: "json_parse sample_runtime ''{}'' = Some (JObj [])"
  by (simp add: sample_runtime_def stub_runtime_def sample_text_def)

theorem load_missing_fields_witness:
  "fs_readFile stub_filesys ''/empty.json'' (disk (fst (sample_world, []))) = Inr ''{}''
   \<and> json_parse sample_runtime ''{}'' = Some (JObj [])
   \<and> map_of ([] :: (string \<times> jsval) list) ''cookies'' = None
   \<and> map_of ([] :: (string \<times> jsval) list) ''origins'' = None
   \<and> loadStorageState_action (stub_browser with_slash) stub_filesys sample_runtime ''/empty.json'' (sample_world, [])
       = restore (stub_browser with_slash) stub_filesys sample_runtime ''/empty.json''
           (JObj [(''cookies'', JArr [])]) (sample_world, [])
   \<and> loadStorageState_action (stub_browser with_slash) stub_filesys sample_runtime ''/empty.json'' (sample_world, [])
       = restore (stub_browser with_slash) stub_filesys sample_runtime ''/empty.json''
           (JObj [(''origins'', JArr [])]) (sample_world, [])
   \<and> loadStorageState_action (stub_browser with_slash) stub_filesys sample_runtime ''/empty.json'' (sample_world, [])
       = (Inr ''Storage state loaded from /empty.json'', (sample_world, []))"
proof -
  let ?A = "loadStorageState_action (stub_browser with_slash) stub_filesys sample_runtime ''/empty.json'' (sample_world, [])"
  let ?R = "restore (stub_browser with_slash) stub_filesys sample_runtime ''/empty.json''"
  have n: "map_of ([] :: (string \<times> jsval) list) ''cookies'' = None"
    "map_of ([] :: (string \<times> jsval) list) ''origins'' = None"
    by simp_all
  note m = load_missing_fields [OF empty_read empty_parse, of "stub_browser with_slash"]
  from m n have a: "?A = ?R (JObj [(''cookies'', JArr [])]) (sample_world, [])" by blast
  from m n have b: "?A = ?R (JObj [(''origins'', JArr [])]) (sample_world, [])" by blast
  from m n have "?A = (Inr (''Storage state loaded from '' @ ''/empty.json''), (sample_world, []))" by blast
  then have c: "?A = (Inr ''Storage state loaded from /empty.json'', (sample_world, []))" by simp
  from empty_read empty_parse n a b c show ?thesis by (intro conjI)
qed

text \<open>
  That such a file is rejected fails on the file \<^verbatim>\<open>{}\<close>, which is valid JSON and has
  neither \<^verbatim>\<open>cookies\<close> nor \<^verbatim>\<open>origins\<close>: the load succeeds.
\<close>

theorem load_empty_object_counterexample:
  "fs_readFile stub_filesys ''/empty.json'' (disk sample_world) = Inr ''{}''
   \<and> json_parse sample_runtime ''{}'' = Some (JObj [])
   \<and> get_prop (JObj []) ''cookies'' = Inr JUndefined
   \<and> get_prop (JObj []) ''origins'' = Inr JUndefined
   \<and> loadStorageState_action (stub_browser with_slash) stub_filesys sample_runtime ''/empty.json'' (sample_world, [])
       = (Inr ''Storage state loaded from /empty.json'', (sample_world, []))
   \<and> fst (loadStorageState_action (stub_browser with_slash) stub_filesys sample_runtime ''/empty.json'' (sample_world, []))
       \<noteq> Inl SyntaxError"
  by (simp add: run_simps)

section \<open>Cookies\<close>

text \<open>
  C3.  When \<^verbatim>\<open>cookies\<close> of the parsed file is a non-empty array, the first call that
  the action issues is one \<^verbatim>\<open>addCookies\<close> with the whole array, in the world the action
  started in; every later call is a navigation or a script evaluation, so there is
  exactly one such call and it comes before all of them.  The session that the browser's
  \<^verbatim>\<open>addCookies\<close> leaves is the session in which the rest of the calls run, one after
  the other, up to the world the action ends in; and when \<^verbatim>\<open>addCookies\<close> fails, nothing
  else is issued and its error is the result.
\<close>

theorem cookies_one_batch_first:
  assumes rd: "fs_readFile F path (disk w) = Inr content"
    and ps: "json_parse rt content = Some storageState"
    and ck: "get_prop storageState ''cookies'' = Inr (JArr cs)"
    and ne: "cs \<noteq> []"
    and run: "loadStorageState_action B F rt path (w, []) = (res, (w', lg))"
  shows "\<exists>rest. lg = Event (AddCookies (JArr cs)) w None # rest
     \<and> (\<forall>ev \<in> set rest. (\<exists>v. ev_call ev = Goto v) \<or> (\<exists>sc a. ev_call ev = Evaluate sc a))
     \<and> consistent B F (w\<lparr>sess := snd (pw_addCookies B (JArr cs) (sess w))\<rparr>) rest
     \<and> snd (outcome B F (w\<lparr>sess := snd (pw_addCookies B (JArr cs) (sess w))\<rparr>) rest) = w'
     \<and> (\<forall>e. fst (pw_addCookies B (JArr cs) (sess w)) = Some e \<longrightarrow> rest = [] \<and> res = Inl e)"
proof -
  let ?w1 = "w\<lparr>sess := snd (pw_addCookies B (JArr cs) (sess w))\<rparr>"
  have r: "restore B F rt path storageState (w, []) = (res, (w', lg))"
    using load_parsed [of F path "(w, [])" content rt storageState B] rd ps run by simp
  from restore_after_cookies [OF r] obtain c r1
    where ac: "apply_cookies B F rt storageState (w, []) = (c, r1)"
      and lp: "adds (loop_event rt) r1 (w', lg)"
    by blast
  have ne': "nonempty rt (JArr cs) = Inr True"
    using ne by (simp add: nonempty_def)
  from apply_cookies_cases [OF ac]
  have "issue B F None (AddCookies (JArr cs)) (w, []) = (c, r1)"
  proof (elim disjE conjE exE)
    assume "\<forall>c. get_prop storageState ''cookies'' = Inr c \<longrightarrow> nonempty rt c \<noteq> Inr True"
    with ck ne' show ?thesis by blast
  next
    fix c'
    assume "get_prop storageState ''cookies'' = Inr c'"
      and "issue B F None (AddCookies c') (w, []) = (c, r1)"
    with ck show ?thesis by simp
  qed
  from issue_log [OF this] have l1: "snd r1 = [Event (AddCookies (JArr cs)) w None]" by simp
  from lp obtain rest where n: "snd (w', lg) = snd r1 @ rest" "\<forall>ev \<in> set rest. loop_event rt ev"
    unfolding adds_def by blast
  from n(1) l1 have lg: "lg = Event (AddCookies (JArr cs)) w None # rest" by simp
  have shape: "\<forall>ev \<in> set rest. (\<exists>v. ev_call ev = Goto v) \<or> (\<exists>sc a. ev_call ev = Evaluate sc a)"
  proof
    fix ev
    assume "ev \<in> set rest"
    with n(2) have "loop_event rt ev" by blast
    then show "(\<exists>v. ev_call ev = Goto v) \<or> (\<exists>sc a. ev_call ev = Evaluate sc a)"
      unfolding loop_event_def by blast
  qed
  from restore_tracked [OF tracked_start r]
  have t: "consistent B F w lg" "snd (outcome B F w lg) = w'"
    "\<forall>e. fst (outcome B F w lg) = Some e \<longrightarrow> res = Inl e"
    by (auto simp: tracked_def split: sum.splits)
  obtain y s1 where p: "pw_addCookies B (JArr cs) (sess w) = (y, s1)"
    by (cases "pw_addCookies B (JArr cs) (sess w)") blast
  have ex: "exec B F (AddCookies (JArr cs)) w = (y, ?w1)" by (simp add: p)
  have "consistent B F ?w1 rest \<and> snd (outcome B F ?w1 rest) = w'
      \<and> (\<forall>e. y = Some e \<longrightarrow> rest = [] \<and> res = Inl e)"
  proof (cases y)
    case None
    with t lg ex show ?thesis by simp
  next
    case (Some e)
    with t lg ex show ?thesis by simp
  qed
  moreover from p have "fst (pw_addCookies B (JArr cs) (sess w)) = y" by simp
  ultimately have rest: "consistent B F ?w1 rest" "snd (outcome B F ?w1 rest) = w'"
    "\<forall>e. fst (pw_addCookies B (JArr cs) (sess w)) = Some e \<longrightarrow> rest = [] \<and> res = Inl e"
    by simp_all
  from lg shape rest show ?thesis by blast
qed

theorem cookies_one_batch_first_witness:
  "fs_readFile stub_filesys ''/s.json'' (disk sample_world) = Inr sample_text
   \<and> json_parse sample_runtime sample_text = Some sample_snapshot
   \<and> get_prop sample_snapshot ''cookies'' = Inr (JArr [sample_cookie])
   \<and> [sample_cookie] \<noteq> []
   \<and> snd (pw_addCookies (stub_browser with_slash) (JArr [sample_cookie]) (sess sample_world))
        = blank_tab\<lparr>tab_jar := [sample_cookie]\<rparr>
   \<and> tab_jar (sess (fst (snd (sample_load with_slash)))) = [sample_cookie]
   \<and> (\<exists>rest. snd (snd (sample_load with_slash))
          = Event (AddCookies (JArr [sample_cookie])) sample_world None # rest
        \<and> (\<forall>ev \<in> set rest. (\<exists>v. ev_call ev = Goto v) \<or> (\<exists>sc a. ev_call ev = Evaluate sc a))
        \<and> consistent (stub_browser with_slash) stub_filesys
             (sample_world\<lparr>sess := blank_tab\<lparr>tab_jar := [sample_cookie]\<rparr>\<rparr>) rest
        \<and> snd (outcome (stub_browser with_slash) stub_filesys
             (sample_world\<lparr>sess := blank_tab\<lparr>tab_jar := [sample_cookie]\<rparr>\<rparr>) rest)
            = fst (snd (sample_load with_slash)))"
proof -
  let ?B = "stub_browser with_slash"
  have ck: "get_prop sample_snapshot ''cookies'' = Inr (JArr [sample_cookie])"
    by (simp add: sample_snapshot_def snapshot_json_def)
  have ne: "[sample_cookie] \<noteq> []" by simp
  have ad: "snd (pw_addCookies ?B (JArr [sample_cookie]) (sess sample_world))
        = blank_tab\<lparr>tab_jar := [sample_cookie]\<rparr>"
    by (simp add: stub_browser_def sample_world_def blank_world_def blank_tab_def)
  have jar: "tab_jar (sess (fst (snd (sample_load with_slash)))) = [sample_cookie]"
    using sample_run_session by simp
  from cookies_one_batch_first [OF sample_read sample_parse ck ne sample_load_pair [of with_slash],
      unfolded ad]
  have "\<exists>rest. snd (snd (sample_load with_slash))
          = Event (AddCookies (JArr [sample_cookie])) sample_world None # rest
        \<and> (\<forall>ev \<in> set rest. (\<exists>v. ev_call ev = Goto v) \<or> (\<exists>sc a. ev_call ev = Evaluate sc a))
        \<and> consistent ?B stub_filesys
             (sample_world\<lparr>sess := blank_tab\<lparr>tab_jar := [sample_cookie]\<rparr>\<rparr>) rest
        \<and> snd (outcome ?B stub_filesys
             (sample_world\<lparr>sess := blank_tab\<lparr>tab_jar := [sample_cookie]\<rparr>\<rparr>) rest)
            = fst (snd (sample_load with_slash))"
    by blast
  with sample_read sample_parse ck ne ad jar show ?thesis by (intro conjI)
qed

section \<open>Script evaluation\<close>

lemma code_lines_hold_path:
  "hd (loadStorageState_code path) = ''// Load storage state from '' @ path"
  "hd (saveStorageState_code path) = ''// Save storage state to '' @ path"
  by (simp_all add: loadStorageState_code_def saveStorageState_code_def)

lemma loop_event_evaluate:
  assumes "loop_event rt ev" and "ev_call ev = Evaluate sc arg"
  shows "sc = PageFunction (inject_items rt) \<and>
     (\<exists>e. ev_entry ev = Some e \<and> get_prop e ''localStorage'' = Inr arg)"
  using assms by (clarsimp simp: loop_event_def)

text \<open>
  C6, as amended.  Whatever the path and the content of the file, every script
  evaluation that the action issues hands \<^verbatim>\<open>page.evaluate\<close> a function, never source
  text, and always the same one: \<open>inject_items\<close>, which is built from nothing but the
  runtime.  The data travel as the argument of the call, which is the \<^verbatim>\<open>localStorage\<close>
  value of the entry being processed, as the parser returned it.  Nothing is said of
  the \<^verbatim>\<open>code\<close> lines that the handlers return for display.
\<close>

theorem evaluate_fixed_function:
  assumes rd: "fs_readFile F path (disk w) = Inr content"
    and ps: "json_parse rt content = Some storageState"
    and run: "loadStorageState_action B F rt path (w, []) = (res, (w', lg))"
  shows "\<forall>ev \<in> set lg. \<forall>sc arg. ev_call ev = Evaluate sc arg \<longrightarrow>
     sc = PageFunction (inject_items rt) \<and>
     (\<exists>e. ev_entry ev = Some e \<and> get_prop e ''localStorage'' = Inr arg)"
proof -
  let ?Q = "\<lambda>ev. \<forall>sc arg. ev_call ev = Evaluate sc arg \<longrightarrow>
     sc = PageFunction (inject_items rt) \<and>
     (\<exists>e. ev_entry ev = Some e \<and> get_prop e ''localStorage'' = Inr arg)"
  have r: "restore B F rt path storageState (w, []) = (res, (w', lg))"
    using load_parsed [of F path "(w, [])" content rt storageState B] rd ps run by simp
  have ev: "?Q ev" if "loop_event rt ev" for ev
    using loop_event_evaluate [OF that] by blast
  have step: "adds ?Q r r'" if "restore_origin B F rt e r = (x, r')" for e r x r'
    by (rule adds_mono [OF restore_origin_loop_event [OF that]]) (erule ev)
  have "adds ?Q (w, []) (w', lg)"
    by (rule restore_adds [OF _ step r]) simp
  then show ?thesis by (simp add: adds_def)
qed


theorem evaluate_fixed_function_witness:
  "fs_readFile stub_filesys ''/s.json'' (disk sample_world) = Inr sample_text
   \<and> json_parse sample_runtime sample_text = Some sample_snapshot
   \<and> snd (snd (sample_load with_slash)) ! 2 \<in> set (snd (snd (sample_load with_slash)))
   \<and> ev_call (snd (snd (sample_load with_slash)) ! 2)
        = Evaluate (PageFunction (inject_items sample_runtime)) (JArr [item_json (''theme'', ''dark'')])
   \<and> (\<exists>e. ev_entry (snd (snd (sample_load with_slash)) ! 2) = Some e \<and>
          get_prop e ''localStorage'' = Inr (JArr [item_json (''theme'', ''dark'')]))"
proof -
  let ?lg = "snd (snd (sample_load with_slash))"
  have len: "length ?lg = 3"
    using arg_cong [OF sample_run_calls, of length] by simp
  then have mem: "?lg ! 2 \<in> set ?lg" by simp
  have "map ev_call ?lg ! 2 = Evaluate (PageFunction (inject_items sample_runtime)) (JArr [item_json (''theme'', ''dark'')])"
    by (simp add: sample_run_calls)
  with len have cl: "ev_call (?lg ! 2) = Evaluate (PageFunction (inject_items sample_runtime)) (JArr [item_json (''theme'', ''dark'')])"
    by simp
  from evaluate_fixed_function [OF sample_read sample_parse sample_load_pair] mem cl
  have "\<exists>e. ev_entry (?lg ! 2) = Some e \<and>
          get_prop e ''localStorage'' = Inr (JArr [item_json (''theme'', ''dark'')])"
    by blast
  with sample_read sample_parse mem cl show ?thesis by (intro conjI)
qed

text \<open>
  That no path is put into a code string fails on the \<^verbatim>\<open>code\<close> lines: line 101 of the
  load handler and lines 44 and 45 of the save handler splice the path into the text,
  so a path with a line break leaves the comment, and a path with a quote leaves the
  string literal.
\<close>

theorem code_lines_interpolate_path_counterexample:
  "hd (loadStorageState_code (''x'' @ [CHR 0x0A] @ ''evil()''))
      = ''// Load storage state from x'' @ [CHR 0x0A] @ ''evil()''
   \<and> saveStorageState_code (''a'' @ [CHR 0x27] @ '' }); evil(); //'') ! 1
      = ''await context.storageState({ path: '' @ [CHR 0x27] @ ''a'' @ [CHR 0x27]
          @ '' }); evil(); //'' @ [CHR 0x27] @ '' });''"
  by (simp add: loadStorageState_code_def saveStorageState_code_def)

section \<open>The tab's URL when a script is evaluated\<close>

text \<open>
  C1, as amended.  Consider the navigations that the load issued for entries that have
  something to inject.  Provided that each of them that succeeded left the tab on a URL
  that starts with the URL it was asked for, each script evaluation issued for an entry
  whose \<^verbatim>\<open>origin\<close> is a string is issued while the tab's URL starts with that string.
  Nothing is asked of navigations that the load did not issue.  The action itself does
  not look at the URL again after \<^verbatim>\<open>page.goto\<close> returns.
\<close>

theorem injection_at_origin:
  assumes rd: "fs_readFile F path (disk w) = Inr content"
    and ps: "json_parse rt content = Some storageState"
    and run: "loadStorageState_action B F rt path (w, []) = (res, (w', lg))"
    and lands: "\<forall>ev \<in> set lg. \<forall>u e items s'.
       ev_call ev = Goto (JStr u) \<longrightarrow> ev_entry ev = Some e \<longrightarrow>
       get_prop e ''localStorage'' = Inr items \<longrightarrow> nonempty rt items = Inr True \<longrightarrow>
       pw_goto B (JStr u) (sess (ev_world ev)) = (None, s') \<longrightarrow> prefix u (pw_url B s')"
  shows "\<forall>ev \<in> set lg. \<forall>sc items e u.
     ev_call ev = Evaluate sc items \<longrightarrow> ev_entry ev = Some e \<longrightarrow>
     get_prop e ''origin'' = Inr (JStr u) \<longrightarrow> prefix u (pw_url B (sess (ev_world ev)))"
proof -
  have r: "restore B F rt path storageState (w, []) = (res, (w', lg))"
    using load_parsed [of F path "(w, [])" content rt storageState B] rd ps run by simp
  have "adds_if (landed B rt) (at_origin B) (w, []) (w', lg)"
    by (rule restore_adds_if [OF _ restore_origin_at_origin r]) (simp add: at_origin_def)
  moreover have "\<forall>ev \<in> set lg. landed B rt ev"
    using lands unfolding landed_def by blast
  ultimately have "\<forall>ev \<in> set lg. at_origin B ev"
    by (simp add: adds_if_def)
  then show ?thesis unfolding at_origin_def by blast
qed

lemma sample_load_lands:
  "\<forall>ev \<in> set (snd (snd (sample_load with_slash))). \<forall>u e items s'.
       ev_call ev = Goto (JStr u) \<longrightarrow> ev_entry ev = Some e \<longrightarrow>
       get_prop e ''localStorage'' = Inr items \<longrightarrow> nonempty sample_runtime items = Inr True \<longrightarrow>
       pw_goto (stub_browser with_slash) (JStr u) (sess (ev_world ev)) = (None, s') \<longrightarrow>
       prefix u (pw_url (stub_browser with_slash) s')"
proof (intro ballI allI impI)
  fix ev u e items s'
  assume "pw_goto (stub_browser with_slash) (JStr u) (sess (ev_world ev)) = (None, s')"
  then show "prefix u (pw_url (stub_browser with_slash) s')"
    by (auto simp: stub_browser_def with_slash_def)
qed

theorem injection_at_origin_witness:
  "fs_readFile stub_filesys ''/s.json'' (disk sample_world) = Inr sample_text
   \<and> json_parse sample_runtime sample_text = Some sample_snapshot
   \<and> ev_call (snd (snd (sample_load with_slash)) ! 1) = Goto (JStr ''https://example.com'')
   \<and> fst (pw_goto (stub_browser with_slash) (JStr ''https://example.com'')
              (sess (ev_world (snd (snd (sample_load with_slash)) ! 1)))) = None
   \<and> prefix ''https://example.com''
        (pw_url (stub_browser with_slash)
           (snd (pw_goto (stub_browser with_slash) (JStr ''https://example.com'')
              (sess (ev_world (snd (snd (sample_load with_slash)) ! 1))))))
   \<and> snd (snd (sample_load with_slash)) ! 2 \<in> set (snd (snd (sample_load with_slash)))
   \<and> ev_call (snd (snd (sample_load with_slash)) ! 2)
        = Evaluate (PageFunction (inject_items sample_runtime)) (JArr [item_json (''theme'', ''dark'')])
   \<and> ev_entry (snd (snd (sample_load with_slash)) ! 2)
        = Some (origin_json (''https://example.com'', [(''theme'', ''dark'')]))
   \<and> get_prop (origin_json (''https://example.com'', [(''theme'', ''dark'')])) ''origin''
        = Inr (JStr ''https://example.com'')
   \<and> prefix ''https://example.com''
        (pw_url (stub_browser with_slash) (sess (ev_world (snd (snd (sample_load with_slash)) ! 2))))"
proof -
  let ?B = "stub_browser with_slash"
  let ?lg = "snd (snd (sample_load with_slash))"
  let ?e = "origin_json (''https://example.com'', [(''theme'', ''dark'')])"
  have len: "length ?lg = 3"
    using arg_cong [OF sample_run_calls, of length] by simp
  then have mem: "?lg ! 2 \<in> set ?lg" by simp
  have "map ev_call ?lg ! 1 = Goto (JStr ''https://example.com'')"
    by (simp add: sample_run_calls)
  with len have g: "ev_call (?lg ! 1) = Goto (JStr ''https://example.com'')" by simp
  have g1: "fst (pw_goto ?B (JStr ''https://example.com'') (sess (ev_world (?lg ! 1)))) = None"
    by (simp add: stub_browser_def)
  have g2: "prefix ''https://example.com''
      (pw_url ?B (snd (pw_goto ?B (JStr ''https://example.com'') (sess (ev_world (?lg ! 1))))))"
    by (simp add: stub_browser_def with_slash_def)
  have "map ev_call ?lg ! 2 = Evaluate (PageFunction (inject_items sample_runtime)) (JArr [item_json (''theme'', ''dark'')])"
    by (simp add: sample_run_calls)
  with len have cl: "ev_call (?lg ! 2) = Evaluate (PageFunction (inject_items sample_runtime)) (JArr [item_json (''theme'', ''dark'')])"
    by simp
  have "map ev_entry ?lg ! 2 = Some ?e"
    by (simp add: sample_run_entries)
  with len have en: "ev_entry (?lg ! 2) = Some ?e" by simp
  have og: "get_prop ?e ''origin'' = Inr (JStr ''https://example.com'')"
    by (simp add: origin_json_def)
  from injection_at_origin [OF sample_read sample_parse sample_load_pair sample_load_lands] mem cl en og
  have "prefix ''https://example.com'' (pw_url ?B (sess (ev_world (?lg ! 2))))"
    by blast
  with sample_read sample_parse g g1 g2 mem cl en og show ?thesis by (intro conjI)
qed

text \<open>
  Without the proviso the property fails: when the site redirects
  \<^verbatim>\<open>https://example.com\<close> to \<^verbatim>\<open>https://www.example.com/\<close>, the load succeeds and the
  script for the entry \<^verbatim>\<open>https://example.com\<close> is evaluated while the tab is on
  \<^verbatim>\<open>https://www.example.com/\<close>.
\<close>

theorem injection_after_redirect_counterexample:
  "fs_readFile stub_filesys ''/s.json'' (disk sample_world) = Inr sample_text
   \<and> json_parse sample_runtime sample_text = Some sample_snapshot
   \<and> fst (sample_load to_www) = Inr ''Storage state loaded from /s.json''
   \<and> ev_call (snd (snd (sample_load to_www)) ! 2)
        = Evaluate (PageFunction (inject_items sample_runtime)) (JArr [item_json (''theme'', ''dark'')])
   \<and> ev_entry (snd (snd (sample_load to_www)) ! 2)
        = Some (origin_json (''https://example.com'', [(''theme'', ''dark'')]))
   \<and> get_prop (origin_json (''https://example.com'', [(''theme'', ''dark'')])) ''origin''
        = Inr (JStr ''https://example.com'')
   \<and> pw_url (stub_browser to_www) (sess (ev_world (snd (snd (sample_load to_www)) ! 2)))
        = ''https://www.example.com/''
   \<and> \<not> prefix ''https://example.com'' ''https://www.example.com/''"
  by (simp add: sample_read sample_parse sample_load_def run_simps)


section \<open>Navigation\<close>




section \<open>Failure\<close>

text \<open>
  C7.  Whatever happens during a load that starts in the world \<open>w\<close> with an empty log:
  \<^item> the log is \<open>consistent\<close>: the calls were issued one after the other, each in the
    world that the call before it left, and no call follows one that failed, so
    nothing is retried and nothing is issued to undo what was done;
  \<^item> the world at the end is the one that the last call issued left, so what the
    calls before it applied is still applied;
  \<^item> when a call failed, its error is the result of the action, and when the action
    succeeded, no call failed;
  \<^item> when the file cannot be read, or its content is not JSON, the action fails with
    that error and nothing was issued.
\<close>

theorem restore_aborts_without_rollback:
  assumes run: "loadStorageState_action B F rt path (w, []) = (res, (w', lg))"
  shows "consistent B F w lg
     \<and> snd (outcome B F w lg) = w'
     \<and> (\<forall>e. fst (outcome B F w lg) = Some e \<longrightarrow> res = Inl e)
     \<and> ((\<exists>msg. res = Inr msg) \<longrightarrow> fst (outcome B F w lg) = None)
     \<and> (\<forall>e. fs_readFile F path (disk w) = Inl e \<longrightarrow> res = Inl e \<and> lg = [] \<and> w' = w)
     \<and> (\<forall>content. fs_readFile F path (disk w) = Inr content \<longrightarrow> json_parse rt content = None \<longrightarrow>
           res = Inl SyntaxError \<and> lg = [] \<and> w' = w)"
proof -
  have t: "tracked B F w (case res of Inl e \<Rightarrow> Some e | Inr msg \<Rightarrow> None) (w', lg)"
  proof (cases "fs_readFile F path (disk w)")
    case (Inl e)
    with run have "res = Inl e" "(w', lg) = (w, [])" by (simp_all add: loadStorageState_action_def)
    then show ?thesis by (simp add: tracked_def)
  next
    case rd: (Inr content)
    show ?thesis
    proof (cases "json_parse rt content")
      case None
      with run rd have "res = Inl SyntaxError" "(w', lg) = (w, [])"
        by (simp_all add: loadStorageState_action_def)
      then show ?thesis by (simp add: tracked_def)
    next
      case (Some st)
      with run rd have "restore B F rt path st (w, []) = (res, (w', lg))"
        by (simp add: loadStorageState_action_def)
      with tracked_start show ?thesis by (rule restore_tracked)
    qed
  qed
  have a: "\<forall>e. fs_readFile F path (disk w) = Inl e \<longrightarrow> res = Inl e \<and> lg = [] \<and> w' = w"
    using run by (auto simp: loadStorageState_action_def)
  have b: "\<forall>content. fs_readFile F path (disk w) = Inr content \<longrightarrow> json_parse rt content = None \<longrightarrow>
           res = Inl SyntaxError \<and> lg = [] \<and> w' = w"
    using run by (auto simp: loadStorageState_action_def)
  from t have "consistent B F w lg" "snd (outcome B F w lg) = w'"
    "\<forall>e. fst (outcome B F w lg) = Some e \<longrightarrow> res = Inl e"
    "(\<exists>msg. res = Inr msg) \<longrightarrow> fst (outcome B F w lg) = None"
    by (auto simp: tracked_def split: sum.splits)
  with a b show ?thesis by (intro conjI)
qed

text \<open>
  On the file with the incomplete origin entry, the stub browser refuses the
  navigation to \<^verbatim>\<open>undefined\<close>; the action fails with its error and the cookie stays in
  the jar.
\<close>

lemma partial_load_result:
  "fst partial_load = Inl (BrowserError ''url: expected string'')"
  by (simp add: partial_load_def run_simps)

lemma partial_load_calls:
  "map ev_call (snd (snd partial_load)) = [AddCookies (JArr [sample_cookie]), Goto JUndefined]"
  by (simp add: partial_load_def run_simps)

lemma partial_load_jar:
  "tab_jar (sess (fst (snd partial_load))) = [sample_cookie]"
  by (simp add: partial_load_def run_simps)

theorem restore_aborts_without_rollback_witness:
  "fst partial_load = Inl (BrowserError ''url: expected string'')
   \<and> map ev_call (snd (snd partial_load)) = [AddCookies (JArr [sample_cookie]), Goto JUndefined]
   \<and> tab_jar (sess (fst (snd partial_load))) = [sample_cookie]
   \<and> consistent (stub_browser with_slash) stub_filesys sample_world (snd (snd partial_load))
   \<and> snd (outcome (stub_browser with_slash) stub_filesys sample_world (snd (snd partial_load)))
        = fst (snd partial_load)
   \<and> fs_readFile stub_filesys ''/nope.json'' (disk sample_world) = Inl (FsError ''ENOENT'')
   \<and> loadStorageState_action (stub_browser with_slash) stub_filesys sample_runtime ''/nope.json'' (sample_world, [])
        = (Inl (FsError ''ENOENT''), (sample_world, []))
   \<and> fs_readFile stub_filesys ''/bad.json'' (disk sample_world) = Inr ''{oops''
   \<and> json_parse sample_runtime ''{oops'' = None
   \<and> loadStorageState_action (stub_browser with_slash) stub_filesys sample_runtime ''/bad.json'' (sample_world, [])
        = (Inl SyntaxError, (sample_world, []))"
proof -
  let ?B = "stub_browser with_slash"
  let ?A = "\<lambda>p. loadStorageState_action ?B stub_filesys sample_runtime p (sample_world, [])"
  have p: "?A p = (fst (?A p), (fst (snd (?A p)), snd (snd (?A p))))" for p by simp
  have pl: "?A ''/partial.json'' = (fst partial_load, (fst (snd partial_load), snd (snd partial_load)))"
    by (simp add: partial_load_def)
  note t1 = restore_aborts_without_rollback [OF pl]
  from t1 have c: "consistent ?B stub_filesys sample_world (snd (snd partial_load))"
    and o: "snd (outcome ?B stub_filesys sample_world (snd (snd partial_load))) = fst (snd partial_load)"
    by blast+
  have nf: "fs_readFile stub_filesys ''/nope.json'' (disk sample_world) = Inl (FsError ''ENOENT'')"
    by (simp add: stub_filesys_def sample_world_def blank_world_def)
  from restore_aborts_without_rollback [OF p [of "''/nope.json''"]] nf
  have n: "?A ''/nope.json'' = (Inl (FsError ''ENOENT''), (sample_world, []))"
    by (simp add: prod_eq_iff)
  have bf: "fs_readFile stub_filesys ''/bad.json'' (disk sample_world) = Inr ''{oops''"
    by (simp add: stub_filesys_def sample_world_def blank_world_def)
  have bp: "json_parse sample_runtime ''{oops'' = None"
    by (simp add: sample_runtime_def stub_runtime_def sample_text_def partial_text_def)
  from restore_aborts_without_rollback [OF p [of "''/bad.json''"]] bf bp
  have b: "?A ''/bad.json'' = (Inl SyntaxError, (sample_world, []))"
    by (simp add: prod_eq_iff)
  from partial_load_result partial_load_calls partial_load_jar c o nf n bf bp b
  show ?thesis by (intro conjI)
qed


section \<open>Saving\<close>

text \<open>
  C8.  Once the state is captured, the action issues \<^verbatim>\<open>mkdir\<close> of the directory of the
  path with \<^verbatim>\<open>recursive: true\<close>, which creates the missing parents and accepts those
  that exist.  When that fails, the error is the result and nothing is written.
  Otherwise the next and last call is \<^verbatim>\<open>writeFile\<close> of the path with
  \<^verbatim>\<open>JSON.stringify(state, null, 2)\<close> in UTF-8, issued whatever the disk holds at the path:
  nothing is read or asked before.  On a file system where a file that was written
  reads back as written, a save that succeeds leaves that text in the file.
\<close>

theorem save_mkdir_then_write:
  assumes cap: "pw_storageState B (sess w) = Inr storageState"
    and mk: "fs_mkdir F (path_dirname rt path) True (disk w) = (m, f1)"
    and wr: "fs_writeFile F path (json_stringify rt storageState 2) ''utf-8'' f1 = (x, f2)"
    and run: "saveStorageState_action B F rt path (w, []) = (res, (w', lg))"
  shows "(case m of
            Some e \<Rightarrow> res = Inl e \<and> w' = w\<lparr>disk := f1\<rparr> \<and>
              lg = [Event (Mkdir (path_dirname rt path) True) w None]
          | None \<Rightarrow>
              lg = [Event (Mkdir (path_dirname rt path) True) w None,
                    Event (WriteFile path (json_stringify rt storageState 2) ''utf-8'') (w\<lparr>disk := f1\<rparr>) None]
              \<and> w' = w\<lparr>disk := f2\<rparr>
              \<and> res = (case x of Some e \<Rightarrow> Inl e | None \<Rightarrow> Inr (''Storage state saved to '' @ path)))
     \<and> ((\<forall>p d enc f f'. fs_writeFile F p d enc f = (None, f') \<longrightarrow> fs_readFile F p f' = Inr d) \<longrightarrow>
          (\<exists>msg. res = Inr msg) \<longrightarrow>
          fs_readFile F path (disk w') = Inr (json_stringify rt storageState 2))"
proof -
  note u = save_unfold [OF cap mk wr, of "[]"]
  show ?thesis
  proof (cases m)
    case (Some e)
    with u run show ?thesis by simp
  next
    case None
    show ?thesis
    proof (cases x)
      case (Some e)
      with u run None show ?thesis by simp
    next
      case n: None
      with u run None have "w' = w\<lparr>disk := f2\<rparr>" by simp
      with u run None n wr show ?thesis by auto
    qed
  qed
qed

theorem save_mkdir_then_write_witness:
  "pw_storageState (stub_browser with_slash) (sess save_world)
      = Inr (JObj [(''cookies'', JArr []), (''origins'', JArr [])])
   \<and> fs_mkdir stub_filesys (path_dirname sample_runtime ''/a/b/state.json'') True (disk save_world)
      = (None, disk save_world)
   \<and> fs_writeFile stub_filesys ''/a/b/state.json''
        (json_stringify sample_runtime (JObj [(''cookies'', JArr []), (''origins'', JArr [])]) 2) ''utf-8''
        (disk save_world)
      = (None, (disk save_world)(''/a/b/state.json'' \<mapsto> ''{}''))
   \<and> fs_readFile stub_filesys ''/a/b/state.json'' (disk save_world) = Inr ''old''
   \<and> map ev_call (snd (snd sample_save))
      = [Mkdir ''/a/b'' True, WriteFile ''/a/b/state.json'' ''{}'' ''utf-8'']
   \<and> fst sample_save = Inr ''Storage state saved to /a/b/state.json''
   \<and> fs_readFile stub_filesys ''/a/b/state.json'' (disk (fst (snd sample_save))) = Inr ''{}''"
proof -
  let ?st = "JObj [(''cookies'', JArr []), (''origins'', JArr [])]"
  have cap: "pw_storageState (stub_browser with_slash) (sess save_world) = Inr ?st"
    by (simp add: stub_browser_def save_world_def blank_world_def blank_tab_def)
  have mk: "fs_mkdir stub_filesys (path_dirname sample_runtime ''/a/b/state.json'') True (disk save_world)
      = (None, disk save_world)"
    by (simp add: stub_filesys_def)
  have wr: "fs_writeFile stub_filesys ''/a/b/state.json'' (json_stringify sample_runtime ?st 2) ''utf-8''
        (disk save_world) = (None, (disk save_world)(''/a/b/state.json'' \<mapsto> ''{}''))"
    by (simp add: stub_filesys_def sample_runtime_def stub_runtime_def)
  have old: "fs_readFile stub_filesys ''/a/b/state.json'' (disk save_world) = Inr ''old''"
    by (simp add: stub_filesys_def save_world_def blank_world_def)
  have law: "\<forall>p d enc f f'. fs_writeFile stub_filesys p d enc f = (None, f') \<longrightarrow>
      fs_readFile stub_filesys p f' = Inr d"
    by (auto simp: stub_filesys_def)
  have js: "json_stringify sample_runtime ?st 2 = ''{}''"
    by (simp add: sample_runtime_def stub_runtime_def)
  note t = save_mkdir_then_write [OF cap mk wr sample_save_pair]
  from t have lg: "snd (snd sample_save)
      = [Event (Mkdir (path_dirname sample_runtime ''/a/b/state.json'') True) save_world None,
         Event (WriteFile ''/a/b/state.json'' (json_stringify sample_runtime ?st 2) ''utf-8'')
           (save_world\<lparr>disk := disk save_world\<rparr>) None]"
    and res: "fst sample_save = Inr (''Storage state saved to '' @ ''/a/b/state.json'')"
    by simp_all
  from lg have calls: "map ev_call (snd (snd sample_save))
      = [Mkdir ''/a/b'' True, WriteFile ''/a/b/state.json'' ''{}'' ''utf-8'']"
    by (simp add: stub_dirname js)
  from res have res': "fst sample_save = Inr ''Storage state saved to /a/b/state.json''" by simp
  from t law res have "fs_readFile stub_filesys ''/a/b/state.json'' (disk (fst (snd sample_save)))
      = Inr (json_stringify sample_runtime ?st 2)"
    by blast
  then have readback: "fs_readFile stub_filesys ''/a/b/state.json'' (disk (fst (snd sample_save))) = Inr ''{}''"
    by (simp add: js)
  from cap mk wr old calls res' readback show ?thesis by (intro conjI)
qed

text \<open>
  C9.  The only use the action makes of the session is the capture, which reads it.
  The session at the end is the session at the start, every call of the log was issued
  with that session, and every call of the log is a \<^verbatim>\<open>mkdir\<close> or a \<^verbatim>\<open>writeFile\<close>.
\<close>

theorem save_session_untouched:
  assumes run: "saveStorageState_action B F rt path (w, []) = (res, (w', lg))"
  shows "sess w' = sess w
     \<and> (\<forall>ev \<in> set lg. sess (ev_world ev) = sess w \<and>
            ((\<exists>d rc. ev_call ev = Mkdir d rc) \<or> (\<exists>p d enc. ev_call ev = WriteFile p d enc)))"
proof (cases "pw_storageState B (sess w)")
  case (Inl e)
  with run show ?thesis by (simp add: saveStorageState_action_def)
next
  case (Inr st)
  obtain m f1 where mk: "fs_mkdir F (path_dirname rt path) True (disk w) = (m, f1)"
    by (cases "fs_mkdir F (path_dirname rt path) True (disk w)") blast
  obtain x f2 where wr: "fs_writeFile F path (json_stringify rt st 2) ''utf-8'' f1 = (x, f2)"
    by (cases "fs_writeFile F path (json_stringify rt st 2) ''utf-8'' f1") blast
  from save_unfold [OF Inr mk wr, of "[]"] run show ?thesis
    by (cases m) auto
qed

theorem save_session_untouched_witness:
  "sess (fst (snd sample_save)) = sess save_world
   \<and> snd (snd sample_save) ! 1 \<in> set (snd (snd sample_save))
   \<and> sess (ev_world (snd (snd sample_save) ! 1)) = sess save_world
   \<and> (\<exists>p d enc. ev_call (snd (snd sample_save) ! 1) = WriteFile p d enc)"
proof -
  have "length (snd (snd sample_save)) = 2"
    by (simp add: sample_save_def saveStorageState_action_def issue_def Let_def
        stub_browser_def stub_filesys_def save_world_def blank_world_def blank_tab_def)
  then have mem: "snd (snd sample_save) ! 1 \<in> set (snd (snd sample_save))" by simp
  have cl: "ev_call (snd (snd sample_save) ! 1)
      = WriteFile ''/a/b/state.json'' (json_stringify sample_runtime (JObj [(''cookies'', JArr []), (''origins'', JArr [])]) 2) ''utf-8''"
    by (simp add: sample_save_def saveStorageState_action_def issue_def Let_def
        stub_browser_def stub_filesys_def save_world_def blank_world_def blank_tab_def)
  note t = save_session_untouched [OF sample_save_pair]
  from t have a: "sess (fst (snd sample_save)) = sess save_world" by blast
  from t mem have b: "sess (ev_world (snd (snd sample_save) ! 1)) = sess save_world" by blast
  from cl have c: "\<exists>p d enc. ev_call (snd (snd sample_save) ! 1) = WriteFile p d enc" by blast
  from a mem b c show ?thesis by (intro conjI)
qed


section \<open>Two entries for one origin\<close>

text \<open>
  C10.  Let the origins of the snapshot contain two entries for the same origin string,
  both with items to inject, and let the load succeed.  Then both entries were
  processed, in the order of the sequence: the log holds the evaluation for the earlier
  one and, after it, the evaluation for the later one, each with its own list of items.
  In the world that the later evaluation leaves, every key that the two lists share
  has the value that the later list gives it last.  When the later entry ends the
  sequence, that world is the one the load ends in.
\<close>

theorem duplicate_origin_last_wins:
  assumes lens: "storage_lens B"
    and rd: "fs_readFile F path (disk w) = Inr content"
    and ps: "json_parse rt content
               = Some (snapshot_json cookies (pre @ [(u, items1)] @ mid @ [(u, items2)] @ post))"
    and ne1: "items1 \<noteq> []"
    and ne2: "items2 \<noteq> []"
    and run: "loadStorageState_action B F rt path (w, []) = (Inr msg, (w', lg))"
  shows "\<exists>A w1 M w2 Z.
       lg = A @ [Event (inject_call rt items1) w1 (Some (origin_json (u, items1)))]
              @ M @ [Event (inject_call rt items2) w2 (Some (origin_json (u, items2)))] @ Z
     \<and> (\<forall>k \<in> fst ` set items1 \<inter> fst ` set items2.
           pw_localStorage B (sess (snd (exec B F (inject_call rt items2) w2))) k
             = map_of (rev items2) k)
     \<and> (post = [] \<longrightarrow> Z = [] \<and> w' = snd (exec B F (inject_call rt items2) w2))"
proof -
  let ?e1 = "origin_json (u, items1)"
  let ?e2 = "origin_json (u, items2)"
  let ?snap = "snapshot_json cookies (pre @ [(u, items1)] @ mid @ [(u, items2)] @ post)"
  have "restore B F rt path ?snap (w, []) = (Inr msg, (w', lg))"
    using load_parsed [of F path "(w, [])" content rt ?snap B] rd ps run by simp
  from restore_success_loop [OF this] obtain r1 n
    where n: "snd r1 = n"
      and lp: "restore_origins B F rt (map origin_json (pre @ [(u, items1)] @ mid @ [(u, items2)] @ post)) r1
                 = (None, (w', lg))"
    by (auto simp: origins_of_snapshot)
  from lp have "restore_origins B F rt
      (map origin_json pre @ ([?e1] @ (map origin_json mid @ ([?e2] @ map origin_json post)))) r1
        = (None, (w', lg))"
    by simp
  from restore_origins_split [OF this] obtain ra
    where a: "restore_origins B F rt (map origin_json pre) r1 = (None, ra)"
      and a': "restore_origins B F rt ([?e1] @ (map origin_json mid @ ([?e2] @ map origin_json post))) ra
                 = (None, (w', lg))"
    by blast
  from restore_origins_split [OF a'] obtain rb
    where b: "restore_origins B F rt [?e1] ra = (None, rb)"
      and b': "restore_origins B F rt (map origin_json mid @ ([?e2] @ map origin_json post)) rb
                 = (None, (w', lg))"
    by blast
  from restore_origins_split [OF b'] obtain rc
    where c: "restore_origins B F rt (map origin_json mid) rb = (None, rc)"
      and c': "restore_origins B F rt ([?e2] @ map origin_json post) rc = (None, (w', lg))"
    by blast
  from restore_origins_split [OF c'] obtain rd
    where d: "restore_origins B F rt [?e2] rc = (None, rd)"
      and d': "restore_origins B F rt (map origin_json post) rd = (None, (w', lg))"
    by blast
  from restore_origins_log [OF a] obtain na where na: "snd ra = snd r1 @ na" by blast
  from restore_entry_injects [OF ne1 restore_origins_single [OF b]] obtain G1 w1
    where e1: "snd rb = snd ra @ G1 @ [Event (inject_call rt items1) w1 (Some ?e1)]"
    by blast
  from restore_origins_log [OF c] obtain nc where nc: "snd rc = snd rb @ nc" by blast
  from restore_entry_injects [OF ne2 restore_origins_single [OF d]] obtain G2 w2
    where e2: "snd rd = snd rc @ G2 @ [Event (inject_call rt items2) w2 (Some ?e2)]"
      and x2: "exec B F (inject_call rt items2) w2 = (None, fst rd)"
    by blast
  from restore_origins_log [OF d'] obtain Z where z: "lg = snd rd @ Z" by auto
  have l: "lg = (snd r1 @ na @ G1) @ [Event (inject_call rt items1) w1 (Some ?e1)]
              @ (nc @ G2) @ [Event (inject_call rt items2) w2 (Some ?e2)] @ Z"
    by (simp add: z e2 nc e1 na)
  have s: "pw_localStorage B (sess (snd (exec B F (inject_call rt items2) w2))) k = map_of (rev items2) k"
    if "k \<in> fst ` set items2" for k
  proof -
    from that have "k \<in> dom (map_of (rev items2))"
      by (simp add: dom_map_of_conv_image_fst)
    then obtain v where "map_of (rev items2) k = Some v" by blast
    with exec_inject_call [OF lens x2] x2 show ?thesis by (simp add: map_add_def)
  qed
  have p: "Z = [] \<and> w' = snd (exec B F (inject_call rt items2) w2)" if "post = []"
  proof -
    from that d' have "rd = (w', lg)" by simp
    with z x2 show ?thesis by auto
  qed
  from l s p show ?thesis by blast
qed

lemmas dup_simps = dup_load_def dup_world_def dup_runtime_def dup_snapshot_def dup_items1_def
  dup_items2_def inject_call_def

lemma dup_load_result: "fst dup_load = Inr ''Storage state loaded from /dup.json''"
  by (simp add: dup_simps run_simps)

lemma dup_load_calls:
  "map ev_call (snd (snd dup_load))
     = [Goto (JStr ''https://example.com''), inject_call dup_runtime dup_items1,
        inject_call dup_runtime dup_items2]"
  by (simp add: dup_simps run_simps)

lemma dup_load_store:
  "pw_localStorage (stub_browser with_slash) (sess (fst (snd dup_load))) ''lang'' = Some ''en''"
  by (simp add: dup_simps run_simps)

lemma stub_lens: "storage_lens (stub_browser settle)"
  by (simp add: storage_lens_def stub_browser_def)

theorem duplicate_origin_last_wins_witness:
  "storage_lens (stub_browser with_slash)
   \<and> fs_readFile stub_filesys ''/dup.json'' (disk dup_world) = Inr dup_text
   \<and> json_parse dup_runtime dup_text = Some dup_snapshot
   \<and> dup_items1 \<noteq> [] \<and> dup_items2 \<noteq> []
   \<and> fst dup_load = Inr ''Storage state loaded from /dup.json''
   \<and> ''theme'' \<in> fst ` set dup_items1 \<inter> fst ` set dup_items2
   \<and> map ev_call (snd (snd dup_load))
        = [Goto (JStr ''https://example.com''), inject_call dup_runtime dup_items1,
           inject_call dup_runtime dup_items2]
   \<and> pw_localStorage (stub_browser with_slash) (sess (fst (snd dup_load))) ''theme'' = Some ''light''"
proof -
  let ?B = "stub_browser with_slash"
  have rd: "fs_readFile stub_filesys ''/dup.json'' (disk dup_world) = Inr dup_text"
    by (simp add: stub_filesys_def dup_world_def blank_world_def)
  have ps0: "json_parse dup_runtime dup_text = Some dup_snapshot"
    by (simp add: dup_runtime_def stub_runtime_def)
  then have ps: "json_parse dup_runtime dup_text
      = Some (snapshot_json [] ([] @ [(''https://example.com'', dup_items1)] @ []
                @ [(''https://example.com'', dup_items2)] @ []))"
    by (simp add: dup_snapshot_def)
  have ne1: "dup_items1 \<noteq> []" by (simp add: dup_items1_def)
  have ne2: "dup_items2 \<noteq> []" by (simp add: dup_items2_def)
  have run: "loadStorageState_action ?B stub_filesys dup_runtime ''/dup.json'' (dup_world, [])
      = (Inr ''Storage state loaded from /dup.json'', (fst (snd dup_load), snd (snd dup_load)))"
    using dup_load_result by (simp add: dup_load_def prod_eq_iff)
  have k: "''theme'' \<in> fst ` set dup_items1 \<inter> fst ` set dup_items2"
    by (simp add: dup_items1_def dup_items2_def)
  from duplicate_origin_last_wins [OF stub_lens rd ps ne1 ne2 run] obtain w2
    where a: "\<forall>k \<in> fst ` set dup_items1 \<inter> fst ` set dup_items2.
           pw_localStorage ?B (sess (snd (exec ?B stub_filesys (inject_call dup_runtime dup_items2) w2))) k
             = map_of (rev dup_items2) k"
      and b: "fst (snd dup_load) = snd (exec ?B stub_filesys (inject_call dup_runtime dup_items2) w2)"
    by blast
  from a b k have "pw_localStorage ?B (sess (fst (snd dup_load))) ''theme'' = map_of (rev dup_items2) ''theme''"
    by simp
  then have s: "pw_localStorage ?B (sess (fst (snd dup_load))) ''theme'' = Some ''light''"
    by (simp add: dup_items2_def)
  from stub_lens [of with_slash] rd ps0 ne1 ne2 dup_load_result k dup_load_calls s
  show ?thesis by (intro conjI)
qed

end
